theory Spec2Isabelle
  imports Main "HOL-Library.Word" "HOL-Library.Multiset" "HOL-Library.Char_ord"
    "HOL-Library.List_Lexorder" "HOL-Library.Sublist"
begin

section \<open>Errors\<close>

text \<open>
  Go errors are values. The stores wrap an error of the storage engine with
  \<^verbatim>\<open>fmt.Errorf("<context>: %w", err)\<close>; the wrapping is kept as a constructor, so that
  the operation that failed and the cause below it can both be read off an error value.
\<close>

datatype error =
    EngineFailure
  | ErrNoRows
  | UniqueConstraint string
  | MatchSyntax
  | EmbedFailure
  | BackendFailure
  | EmptyResponse
  | DecodeError string
  | NoConfig
  | NoAPIKey
  | UnknownProvider string
  | Errorf string error
  | ErrorfQ string string error
  | ErrorfD string int error

text \<open>The cause at the bottom of a chain of wrappers (what \<^verbatim>\<open>errors.Unwrap\<close> reaches).\<close>

fun cause :: "error \<Rightarrow> error" where
  "cause (Errorf c e) = cause e"
| "cause (ErrorfQ c s e) = cause e"
| "cause (ErrorfD c i e) = cause e"
| "cause e = e"

section \<open>The embedded relational store\<close>

text \<open>
  One database file holds the five tables of \<^verbatim>\<open>migrate\<close>. A table is the list of its
  rows in rowid order; every table has an \<^verbatim>\<open>INTEGER PRIMARY KEY AUTOINCREMENT\<close> column, so
  the state also holds the table's counter of \<^verbatim>\<open>sqlite_sequence\<close>. \<^verbatim>\<open>CURRENT_TIMESTAMP\<close>
  reads the field \<open>now\<close>. The field \<open>faults\<close> is the environment's schedule of engine
  failures: each statement sent to the engine (\<^verbatim>\<open>Exec\<close>, \<^verbatim>\<open>Query\<close>, \<^verbatim>\<open>QueryRow\<close>) takes
  the head of the schedule, and fails without any effect on the tables when the head is
  \<open>True\<close>; an empty schedule is an engine that does not fail.
\<close>

type_synonym time = nat

record Block =
  Block_ID :: int
  Block_Label :: string
  Block_BlockType :: string
  Block_Content :: string
  Block_CreatedAt :: time
  Block_UpdatedAt :: time

record ArchivalEntry =
  Archival_ID :: int
  Archival_Content :: string
  Archival_Tags :: string
  Archival_Embedding :: "8 word list option"
  Archival_CreatedAt :: time

record Entity =
  Entity_ID :: int
  Entity_Name :: string
  Entity_EntityType :: string
  Entity_CreatedAt :: time

text \<open>A row of table \<^verbatim>\<open>relations\<close>: the endpoints are entity ids.\<close>

record relation_row =
  rel_id :: int
  rel_subject_id :: int
  rel_predicate :: string
  rel_object_id :: int
  rel_metadata :: string
  rel_created_at :: time

text \<open>The Go struct \<^verbatim>\<open>Relation\<close>: the endpoints are entity names, read through the join.\<close>

record Relation =
  Relation_ID :: int
  Relation_Subject :: string
  Relation_Predicate :: string
  Relation_Object :: string
  Relation_Metadata :: string
  Relation_CreatedAt :: time

record Summary =
  Summary_ID :: int
  Summary_Level :: int
  Summary_Content :: string
  Summary_SourceIDs :: string
  Summary_CreatedAt :: time

record db =
  memory_blocks :: "Block list"
  memory_blocks_seq :: int
  archival :: "ArchivalEntry list"
  archival_seq :: int
  entities :: "Entity list"
  entities_seq :: int
  relations :: "relation_row list"
  relations_seq :: int
  conversation_summaries :: "Summary list"
  conversation_summaries_seq :: int
  now :: time
  faults :: "bool list"

text \<open>The database that \<^verbatim>\<open>db.Open\<close> creates: every table empty.\<close>

definition empty_db :: db where
  "empty_db = \<lparr> memory_blocks = [], memory_blocks_seq = 0, archival = [], archival_seq = 0,
     entities = [], entities_seq = 0, relations = [], relations_seq = 0,
     conversation_summaries = [], conversation_summaries_seq = 0, now = 0, faults = [] \<rparr>"

text \<open>
  One statement reaches the engine: the result says whether the engine fails it, and the
  schedule moves on.
\<close>

definition stmt :: "db \<Rightarrow> bool \<times> db" where
  "stmt d = (case faults d of [] \<Rightarrow> (False, d) | f # fs \<Rightarrow> (f, d\<lparr>faults := fs\<rparr>))"

text \<open>
  \<^verbatim>\<open>AUTOINCREMENT\<close>: the new rowid is one more than the largest rowid the table has ever
  held, which is the larger of the table's counter and of the rowids present.
\<close>

definition next_rowid :: "int \<Rightarrow> int list \<Rightarrow> int" where
  "next_rowid seq ids = fold max ids seq + 1"

text \<open>Two states hold the same rows: every table is the same list of rows.\<close>

definition same_rows :: "db \<Rightarrow> db \<Rightarrow> bool" where
  "same_rows d d' \<longleftrightarrow>
     memory_blocks d' = memory_blocks d \<and> archival d' = archival d \<and>
     entities d' = entities d \<and> relations d' = relations d \<and>
     conversation_summaries d' = conversation_summaries d"

section \<open>Block Store\<close>

definition BlockStore_GetByLabel :: "string \<Rightarrow> db \<Rightarrow> (error + Block) \<times> db" where
  "BlockStore_GetByLabel label d =
     (case stmt d of
        (True, d') \<Rightarrow> (Inl (ErrorfQ ''get block'' label EngineFailure), d')
      | (False, d') \<Rightarrow>
          (case find (\<lambda>b. Block_Label b = label) (memory_blocks d') of
             None \<Rightarrow> (Inl (ErrorfQ ''get block'' label ErrNoRows), d')
           | Some b \<Rightarrow> (Inr b, d')))"

definition BlockStore_GetByID :: "int \<Rightarrow> db \<Rightarrow> (error + Block) \<times> db" where
  "BlockStore_GetByID i d =
     (case stmt d of
        (True, d') \<Rightarrow> (Inl (ErrorfD ''get block'' i EngineFailure), d')
      | (False, d') \<Rightarrow>
          (case find (\<lambda>b. Block_ID b = i) (memory_blocks d') of
             None \<Rightarrow> (Inl (ErrorfD ''get block'' i ErrNoRows), d')
           | Some b \<Rightarrow> (Inr b, d')))"

text \<open>
  \<^verbatim>\<open>INSERT INTO memory_blocks (label, block_type, content)\<close>: column \<^verbatim>\<open>label\<close> is
  \<^verbatim>\<open>UNIQUE\<close>, so the insert fails when a row holds the label; both timestamps default to
  \<^verbatim>\<open>CURRENT_TIMESTAMP\<close>.
\<close>

definition BlockStore_Create :: "string \<Rightarrow> string \<Rightarrow> string \<Rightarrow> db \<Rightarrow> (error + Block) \<times> db" where
  "BlockStore_Create label blockType content d =
     (let blockType = (if blockType = [] then ''core'' else blockType) in
      case stmt d of
        (True, d') \<Rightarrow> (Inl (Errorf ''create block'' EngineFailure), d')
      | (False, d') \<Rightarrow>
          if \<exists>b \<in> set (memory_blocks d'). Block_Label b = label
          then (Inl (Errorf ''create block'' (UniqueConstraint ''memory_blocks.label'')), d')
          else
            let i = next_rowid (memory_blocks_seq d') (map Block_ID (memory_blocks d'));
                row = \<lparr> Block_ID = i, Block_Label = label, Block_BlockType = blockType,
                        Block_Content = content, Block_CreatedAt = now d',
                        Block_UpdatedAt = now d' \<rparr>
            in BlockStore_GetByID i
                 (d'\<lparr> memory_blocks := memory_blocks d' @ [row], memory_blocks_seq := i \<rparr>))"

definition BlockStore_Update :: "string \<Rightarrow> string \<Rightarrow> db \<Rightarrow> (error + Block) \<times> db" where
  "BlockStore_Update label content d =
     (case stmt d of
        (True, d') \<Rightarrow> (Inl (ErrorfQ ''update block'' label EngineFailure), d')
      | (False, d') \<Rightarrow>
          BlockStore_GetByLabel label
            (d'\<lparr> memory_blocks :=
                   map (\<lambda>b. if Block_Label b = label
                             then b\<lparr> Block_Content := content, Block_UpdatedAt := now d' \<rparr>
                             else b)
                       (memory_blocks d') \<rparr>))"

text \<open>\<^verbatim>\<open>Delete\<close> returns the engine's error as it is, or \<^verbatim>\<open>nil\<close> (\<open>None\<close>).\<close>

definition BlockStore_Delete :: "string \<Rightarrow> db \<Rightarrow> error option \<times> db" where
  "BlockStore_Delete label d =
     (case stmt d of
        (True, d') \<Rightarrow> (Some EngineFailure, d')
      | (False, d') \<Rightarrow>
          (None, d'\<lparr> memory_blocks := filter (\<lambda>b. Block_Label b \<noteq> label) (memory_blocks d') \<rparr>))"

text \<open>
  \<^verbatim>\<open>List\<close>: an empty type selects every block; \<^verbatim>\<open>ORDER BY label\<close> compares the labels
  byte by byte.
\<close>

definition BlockStore_List :: "string \<Rightarrow> db \<Rightarrow> (error + Block list) \<times> db" where
  "BlockStore_List blockType d =
     (case stmt d of
        (True, d') \<Rightarrow> (Inl (Errorf ''list blocks'' EngineFailure), d')
      | (False, d') \<Rightarrow>
          (Inr (sort_key Block_Label
                  (filter (\<lambda>b. blockType = [] \<or> Block_BlockType b = blockType)
                     (memory_blocks d'))), d'))"

section \<open>Archival Store\<close>

text \<open>\<^verbatim>\<open>strings.Join\<close>: the elements in order, the separator between neighbours.\<close>

fun Join :: "string list \<Rightarrow> string \<Rightarrow> string" where
  "Join [] sep = []"
| "Join [x] sep = x"
| "Join (x # y # ys) sep = x @ sep @ Join (y # ys) sep"

text \<open>
  The comma-join in the words of the specification, to compare \<open>Join\<close> with: the first
  tag, then every further tag behind a comma; the empty string for no tag.
\<close>

fun comma_join :: "string list \<Rightarrow> string" where
  "comma_join [] = []"
| "comma_join (t # ts) = t @ concat (map (\<lambda>x. '','' @ x) ts)"

definition ArchivalStore_GetByID :: "int \<Rightarrow> db \<Rightarrow> (error + ArchivalEntry) \<times> db" where
  "ArchivalStore_GetByID i d =
     (case stmt d of
        (True, d') \<Rightarrow> (Inl (ErrorfD ''get archival'' i EngineFailure), d')
      | (False, d') \<Rightarrow>
          (case find (\<lambda>e. Archival_ID e = i) (archival d') of
             None \<Rightarrow> (Inl (ErrorfD ''get archival'' i ErrNoRows), d')
           | Some e \<Rightarrow> (Inr e, d')))"

text \<open>
  \<^verbatim>\<open>Add\<close>: a \<^verbatim>\<open>nil\<close> embedding is stored as \<^verbatim>\<open>NULL\<close> (\<open>None\<close>); the entry returned is
  read back from the table by its new id. An embedding of no bytes is stored as a blob of
  length zero (\<open>Some []\<close>) and read back as a slice of length zero; whether that slice is
  \<^verbatim>\<open>nil\<close> is not modelled.
\<close>

definition ArchivalStore_Add ::
  "string \<Rightarrow> string list \<Rightarrow> 8 word list option \<Rightarrow> db \<Rightarrow> (error + ArchivalEntry) \<times> db" where
  "ArchivalStore_Add content tags embedding d =
     (let tagStr = Join tags '','' in
      case stmt d of
        (True, d') \<Rightarrow> (Inl (Errorf ''add archival'' EngineFailure), d')
      | (False, d') \<Rightarrow>
          let i = next_rowid (archival_seq d') (map Archival_ID (archival d'));
              row = \<lparr> Archival_ID = i, Archival_Content = content, Archival_Tags = tagStr,
                      Archival_Embedding = embedding, Archival_CreatedAt = now d' \<rparr>
          in ArchivalStore_GetByID i (d'\<lparr> archival := archival d' @ [row], archival_seq := i \<rparr>))"

text \<open>
  \<^verbatim>\<open>Search\<close> and \<^verbatim>\<open>List\<close> select the columns id, content, tags and created_at only, and
  scan them into a fresh \<^verbatim>\<open>ArchivalEntry\<close>, whose \<^verbatim>\<open>Embedding\<close> stays \<^verbatim>\<open>nil\<close>.
\<close>

definition scan_without_embedding :: "ArchivalEntry \<Rightarrow> ArchivalEntry" where
  "scan_without_embedding r =
     \<lparr> Archival_ID = Archival_ID r, Archival_Content = Archival_Content r,
       Archival_Tags = Archival_Tags r, Archival_Embedding = None,
       Archival_CreatedAt = Archival_CreatedAt r \<rparr>"

text \<open>
  The full-text index of the engine is a parameter of \<^verbatim>\<open>Search\<close>: \<open>fts query rows\<close> is the
  rows that \<^verbatim>\<open>MATCH\<close> the query, most relevant first, or \<open>None\<close> when the engine rejects
  the query expression. The triggers of \<^verbatim>\<open>migrate\<close> keep the index in step with table
  \<^verbatim>\<open>archival\<close>, so the index is read as a function of the table's rows.
\<close>

definition ArchivalStore_Search ::
  "(string \<Rightarrow> ArchivalEntry list \<Rightarrow> ArchivalEntry list option) \<Rightarrow>
   string \<Rightarrow> int \<Rightarrow> db \<Rightarrow> (error + ArchivalEntry list) \<times> db" where
  "ArchivalStore_Search fts query limit d =
     (let limit = (if limit \<le> 0 then 10 else limit) in
      case stmt d of
        (True, d') \<Rightarrow> (Inl (Errorf ''search archival'' EngineFailure), d')
      | (False, d') \<Rightarrow>
          (case fts query (archival d') of
             None \<Rightarrow> (Inl (Errorf ''search archival'' MatchSyntax), d')
           | Some ranked \<Rightarrow> (Inr (map scan_without_embedding (take (nat limit) ranked)), d')))"

text \<open>
  \<^verbatim>\<open>ORDER BY created_at DESC\<close>: the later timestamp first; rows of one timestamp come in
  the order in which the table scan delivers them, which is rowid order (the sort of the
  engine is stable). \<open>sort_key\<close> is a stable sort, here on the negated timestamp.
\<close>

definition order_desc :: "('a \<Rightarrow> time) \<Rightarrow> 'a list \<Rightarrow> 'a list" where
  "order_desc key rows = sort_key (\<lambda>r. - int (key r)) rows"

text \<open>
  The engine's \<^verbatim>\<open>LIKE\<close> operator is a parameter: \<open>like pattern text\<close>. \<^verbatim>\<open>List\<close> matches
  the tags against the pattern \<^verbatim>\<open>%tag%\<close>.
\<close>

definition ArchivalStore_List ::
  "(string \<Rightarrow> string \<Rightarrow> bool) \<Rightarrow> string \<Rightarrow> int \<Rightarrow> db \<Rightarrow> (error + ArchivalEntry list) \<times> db" where
  "ArchivalStore_List like tag limit d =
     (let limit = (if limit \<le> 0 then 50 else limit) in
      case stmt d of
        (True, d') \<Rightarrow> (Inl (Errorf ''list archival'' EngineFailure), d')
      | (False, d') \<Rightarrow>
          (Inr (map scan_without_embedding
                  (take (nat limit)
                     (order_desc Archival_CreatedAt
                        (filter (\<lambda>r. tag = [] \<or> like (''%'' @ tag @ ''%'') (Archival_Tags r))
                           (archival d'))))), d'))"

definition ArchivalStore_Delete :: "int \<Rightarrow> db \<Rightarrow> error option \<times> db" where
  "ArchivalStore_Delete i d =
     (case stmt d of
        (True, d') \<Rightarrow> (Some EngineFailure, d')
      | (False, d') \<Rightarrow> (None, d'\<lparr> archival := filter (\<lambda>r. Archival_ID r \<noteq> i) (archival d') \<rparr>))"

text \<open>\<^verbatim>\<open>AllWithEmbeddings\<close> selects the embedding column too, of the rows where it is not NULL.\<close>

definition ArchivalStore_AllWithEmbeddings :: "db \<Rightarrow> (error + ArchivalEntry list) \<times> db" where
  "ArchivalStore_AllWithEmbeddings d =
     (case stmt d of
        (True, d') \<Rightarrow> (Inl (Errorf ''list embeddings'' EngineFailure), d')
      | (False, d') \<Rightarrow> (Inr (filter (\<lambda>r. Archival_Embedding r \<noteq> None) (archival d')), d'))"

section \<open>Graph Store\<close>

text \<open>
  \<^verbatim>\<open>EnsureEntity\<close>: \<^verbatim>\<open>INSERT OR IGNORE\<close> adds no row when the name is taken (column
  \<^verbatim>\<open>name\<close> is \<^verbatim>\<open>UNIQUE\<close>); a second statement reads the id of the row with the name.
  The engine takes the new rowid before it meets the conflict, and the statement ends
  normally, so an ignored insert still moves the table's counter on to the rowid it took:
  ensuring the names A, A, B on an empty table gives the ids 1, 1, 3.
\<close>

definition GraphStore_EnsureEntity :: "string \<Rightarrow> string \<Rightarrow> db \<Rightarrow> (error + int) \<times> db" where
  "GraphStore_EnsureEntity name entityType d =
     (case stmt d of
        (True, d1) \<Rightarrow> (Inl (Errorf ''ensure entity'' EngineFailure), d1)
      | (False, d1) \<Rightarrow>
          let d2 =
            (let i = next_rowid (entities_seq d1) (map Entity_ID (entities d1));
                 row = \<lparr> Entity_ID = i, Entity_Name = name, Entity_EntityType = entityType,
                         Entity_CreatedAt = now d1 \<rparr>
             in if \<exists>e \<in> set (entities d1). Entity_Name e = name
                then d1\<lparr> entities_seq := i \<rparr>
                else d1\<lparr> entities := entities d1 @ [row], entities_seq := i \<rparr>)
          in
            (case stmt d2 of
               (True, d3) \<Rightarrow> (Inl (Errorf ''get entity id'' EngineFailure), d3)
             | (False, d3) \<Rightarrow>
                 (case find (\<lambda>e. Entity_Name e = name) (entities d3) of
                    None \<Rightarrow> (Inl (Errorf ''get entity id'' ErrNoRows), d3)
                  | Some e \<Rightarrow> (Inr (Entity_ID e), d3))))"

text \<open>
  \<^verbatim>\<open>AddRelation\<close>: both endpoints are ensured with the empty entity type, then
  \<^verbatim>\<open>INSERT OR IGNORE\<close> adds the row unless a row with the same subject id, predicate and
  object id is there (\<^verbatim>\<open>UNIQUE(subject_id, predicate, object_id)\<close>); an ignored insert
  moves the counter of table \<^verbatim>\<open>relations\<close> on, as in \<^verbatim>\<open>EnsureEntity\<close>. The ids were just
  read from table \<^verbatim>\<open>entities\<close>, from which nothing is ever deleted, so the foreign keys
  hold.
\<close>

definition GraphStore_AddRelation ::
  "string \<Rightarrow> string \<Rightarrow> string \<Rightarrow> string \<Rightarrow> db \<Rightarrow> error option \<times> db" where
  "GraphStore_AddRelation subject predicate object metadata d =
     (case GraphStore_EnsureEntity subject [] d of
        (Inl err, d1) \<Rightarrow> (Some err, d1)
      | (Inr subID, d1) \<Rightarrow>
          (case GraphStore_EnsureEntity object [] d1 of
             (Inl err, d2) \<Rightarrow> (Some err, d2)
           | (Inr objID, d2) \<Rightarrow>
               (case stmt d2 of
                  (True, d3) \<Rightarrow> (Some (Errorf ''add relation'' EngineFailure), d3)
                | (False, d3) \<Rightarrow>
                    let i = next_rowid (relations_seq d3) (map rel_id (relations d3));
                        row = \<lparr> rel_id = i, rel_subject_id = subID, rel_predicate = predicate,
                                rel_object_id = objID, rel_metadata = metadata,
                                rel_created_at = now d3 \<rparr>
                    in if \<exists>r \<in> set (relations d3). rel_subject_id r = subID \<and>
                            rel_predicate r = predicate \<and> rel_object_id r = objID
                       then (None, d3\<lparr> relations_seq := i \<rparr>)
                       else (None, d3\<lparr> relations := relations d3 @ [row], relations_seq := i \<rparr>))))"

text \<open>
  The join of \<^verbatim>\<open>QueryEntity\<close> and \<^verbatim>\<open>SearchRelations\<close>: a relation row with each entity row
  \<open>s\<close> of its subject id and each entity row \<open>o\<close> of its object id.
\<close>

definition joined :: "db \<Rightarrow> (relation_row \<times> Entity \<times> Entity) list" where
  "joined d =
     [(r, s, ob). r \<leftarrow> relations d,
                  s \<leftarrow> entities d, Entity_ID s = rel_subject_id r,
                  ob \<leftarrow> entities d, Entity_ID ob = rel_object_id r]"

definition scan_relation :: "relation_row \<times> Entity \<times> Entity \<Rightarrow> Relation" where
  "scan_relation j =
     (case j of (r, s, ob) \<Rightarrow>
        \<lparr> Relation_ID = rel_id r, Relation_Subject = Entity_Name s,
          Relation_Predicate = rel_predicate r, Relation_Object = Entity_Name ob,
          Relation_Metadata = rel_metadata r, Relation_CreatedAt = rel_created_at r \<rparr>)"

definition GraphStore_QueryEntity :: "string \<Rightarrow> db \<Rightarrow> (error + Relation list) \<times> db" where
  "GraphStore_QueryEntity name d =
     (case stmt d of
        (True, d') \<Rightarrow> (Inl (Errorf ''query entity'' EngineFailure), d')
      | (False, d') \<Rightarrow>
          (Inr (map scan_relation
                  (order_desc (\<lambda>j. rel_created_at (fst j))
                     (filter (\<lambda>(r, s, ob). Entity_Name s = name \<or> Entity_Name ob = name)
                        (joined d')))), d'))"

definition GraphStore_SearchRelations ::
  "(string \<Rightarrow> string \<Rightarrow> bool) \<Rightarrow> string \<Rightarrow> db \<Rightarrow> (error + Relation list) \<times> db" where
  "GraphStore_SearchRelations like predicate d =
     (case stmt d of
        (True, d') \<Rightarrow> (Inl (Errorf ''search relations'' EngineFailure), d')
      | (False, d') \<Rightarrow>
          (Inr (map scan_relation
                  (order_desc (\<lambda>j. rel_created_at (fst j))
                     (filter (\<lambda>(r, s, ob). like (''%'' @ predicate @ ''%'') (rel_predicate r))
                        (joined d')))), d'))"

definition GraphStore_ListEntities :: "string \<Rightarrow> db \<Rightarrow> (error + Entity list) \<times> db" where
  "GraphStore_ListEntities entityType d =
     (case stmt d of
        (True, d') \<Rightarrow> (Inl (Errorf ''list entities'' EngineFailure), d')
      | (False, d') \<Rightarrow>
          (Inr (sort_key Entity_Name
                  (filter (\<lambda>e. entityType = [] \<or> Entity_EntityType e = entityType)
                     (entities d'))), d'))"

text \<open>
  The constraints of the schema on the graph tables, which the engine enforces on every
  write: the ids are primary keys, an entity name is \<^verbatim>\<open>UNIQUE\<close>, and so is the triple of
  subject id, predicate and object id of a relation.
\<close>

definition rel_key :: "relation_row \<Rightarrow> int \<times> string \<times> int" where
  "rel_key r = (rel_subject_id r, rel_predicate r, rel_object_id r)"

definition graph_ok :: "db \<Rightarrow> bool" where
  "graph_ok d \<longleftrightarrow>
     distinct (map Entity_ID (entities d)) \<and> distinct (map Entity_Name (entities d)) \<and>
     distinct (map rel_id (relations d)) \<and> distinct (map rel_key (relations d))"

text \<open>
  The relation that a row stands for, in the words of the specification: the row with its
  two endpoint ids resolved to the entities of these ids; \<open>all_relations\<close> is the relations
  of the graph, one for each row that resolves.
\<close>

definition relation_of :: "db \<Rightarrow> relation_row \<Rightarrow> Relation option" where
  "relation_of d r =
     (case find (\<lambda>e. Entity_ID e = rel_subject_id r) (entities d) of
        None \<Rightarrow> None
      | Some s \<Rightarrow>
          (case find (\<lambda>e. Entity_ID e = rel_object_id r) (entities d) of
             None \<Rightarrow> None
           | Some ob \<Rightarrow> Some (scan_relation (r, s, ob))))"

definition all_relations :: "db \<Rightarrow> Relation list" where
  "all_relations d = List.map_filter (relation_of d) (relations d)"

section \<open>Summary Store\<close>

definition SummaryStore_GetByID :: "int \<Rightarrow> db \<Rightarrow> (error + Summary) \<times> db" where
  "SummaryStore_GetByID i d =
     (case stmt d of
        (True, d') \<Rightarrow> (Inl (ErrorfD ''get summary'' i EngineFailure), d')
      | (False, d') \<Rightarrow>
          (case find (\<lambda>s. Summary_ID s = i) (conversation_summaries d') of
             None \<Rightarrow> (Inl (ErrorfD ''get summary'' i ErrNoRows), d')
           | Some s \<Rightarrow> (Inr s, d')))"

definition SummaryStore_Add :: "int \<Rightarrow> string \<Rightarrow> string \<Rightarrow> db \<Rightarrow> (error + Summary) \<times> db" where
  "SummaryStore_Add level content sourceIDs d =
     (case stmt d of
        (True, d') \<Rightarrow> (Inl (Errorf ''add summary'' EngineFailure), d')
      | (False, d') \<Rightarrow>
          let i = next_rowid (conversation_summaries_seq d')
                    (map Summary_ID (conversation_summaries d'));
              row = \<lparr> Summary_ID = i, Summary_Level = level, Summary_Content = content,
                      Summary_SourceIDs = sourceIDs, Summary_CreatedAt = now d' \<rparr>
          in SummaryStore_GetByID i
               (d'\<lparr> conversation_summaries := conversation_summaries d' @ [row],
                    conversation_summaries_seq := i \<rparr>))"

text \<open>\<^verbatim>\<open>ORDER BY created_at DESC, id DESC\<close>: ascending by id, then stably by timestamp, reversed.\<close>

definition SummaryStore_List :: "int \<Rightarrow> int \<Rightarrow> db \<Rightarrow> (error + Summary list) \<times> db" where
  "SummaryStore_List level limit d =
     (let limit = (if limit \<le> 0 then 20 else limit) in
      case stmt d of
        (True, d') \<Rightarrow> (Inl (Errorf ''list summaries'' EngineFailure), d')
      | (False, d') \<Rightarrow>
          (Inr (take (nat limit)
                  (rev (sort_key Summary_CreatedAt
                     (sort_key Summary_ID
                        (filter (\<lambda>s. Summary_Level s = level) (conversation_summaries d')))))),
           d'))"

text \<open>\<^verbatim>\<open>CountAtLevel\<close> returns the engine's error as it is, with count 0.\<close>

definition SummaryStore_CountAtLevel :: "int \<Rightarrow> db \<Rightarrow> (int \<times> error option) \<times> db" where
  "SummaryStore_CountAtLevel level d =
     (case stmt d of
        (True, d') \<Rightarrow> ((0, Some EngineFailure), d')
      | (False, d') \<Rightarrow>
          ((int (length (filter (\<lambda>s. Summary_Level s = level) (conversation_summaries d'))),
            None), d'))"

section \<open>Context Assembler\<close>

record Payload =
  CoreBlocks :: "Block list"
  Summaries :: "Summary list"
  Graph :: "Relation list"

text \<open>
  The inner loop of \<^verbatim>\<open>Build\<close>: a relation goes to the end of \<^verbatim>\<open>allRelations\<close> unless its
  id is marked in \<^verbatim>\<open>seen\<close>, a \<^verbatim>\<open>map[int64]bool\<close> (an absent key reads \<^verbatim>\<open>false\<close>).
\<close>

fun add_unseen :: "Relation list \<Rightarrow> (int \<Rightarrow> bool) \<times> Relation list \<Rightarrow> (int \<Rightarrow> bool) \<times> Relation list" where
  "add_unseen [] (seen, allRelations) = (seen, allRelations)"
| "add_unseen (r # rs) (seen, allRelations) =
     (if \<not> seen (Relation_ID r)
      then add_unseen rs (seen(Relation_ID r := True), allRelations @ [r])
      else add_unseen rs (seen, allRelations))"

text \<open>
  The outer loop, over the entities: when \<^verbatim>\<open>QueryEntity\<close> fails for an entity the loop
  goes on with the next one (\<^verbatim>\<open>continue\<close>).
\<close>

fun collect_relations ::
  "Entity list \<Rightarrow> (int \<Rightarrow> bool) \<Rightarrow> Relation list \<Rightarrow> db \<Rightarrow> Relation list \<times> db" where
  "collect_relations [] seen allRelations d = (allRelations, d)"
| "collect_relations (e # es) seen allRelations d =
     (case GraphStore_QueryEntity (Entity_Name e) d of
        (Inl err, d') \<Rightarrow> collect_relations es seen allRelations d'
      | (Inr rels, d') \<Rightarrow>
          (case add_unseen rels (seen, allRelations) of
             (seen', allRelations') \<Rightarrow> collect_relations es seen' allRelations' d'))"

definition Build :: "db \<Rightarrow> (error + Payload) \<times> db" where
  "Build d =
     (case BlockStore_List ''core'' d of
        (Inl err, d1) \<Rightarrow> (Inl (Errorf ''load core blocks'' err), d1)
      | (Inr coreBlocks, d1) \<Rightarrow>
          (case SummaryStore_List 0 5 d1 of
             (Inl err, d2) \<Rightarrow> (Inl (Errorf ''load summaries'' err), d2)
           | (Inr recentSummaries, d2) \<Rightarrow>
               (case GraphStore_ListEntities [] d2 of
                  (Inl err, d3) \<Rightarrow> (Inl (Errorf ''load entities'' err), d3)
                | (Inr ents, d3) \<Rightarrow>
                    (case collect_relations ents (\<lambda>i. False) [] d3 of
                       (allRelations, d4) \<Rightarrow>
                         (Inr \<lparr> CoreBlocks = coreBlocks, Summaries = recentSummaries,
                                Graph = allRelations \<rparr>, d4)))))"

section \<open>Strings\<close>

text \<open>
  A Go string is a sequence of bytes. \<^verbatim>\<open>strings.Index\<close> is the byte offset of the first
  occurrence, or \<open>-1\<close>.
\<close>

definition HasPrefix :: "string \<Rightarrow> string \<Rightarrow> bool" where
  "HasPrefix s p = prefix p s"

definition HasSuffix :: "string \<Rightarrow> string \<Rightarrow> bool" where
  "HasSuffix s p = suffix p s"

fun Index :: "string \<Rightarrow> string \<Rightarrow> int" where
  "Index s sub =
     (if prefix sub s then 0
      else (case s of
              [] \<Rightarrow> -1
            | c # cs \<Rightarrow> (let i = Index cs sub in if i = -1 then -1 else i + 1)))"

declare Index.simps [simp del]

text \<open>
  \<^verbatim>\<open>strings.TrimSpace\<close> removes the leading and the trailing white space, as
  \<^verbatim>\<open>unicode.IsSpace\<close> defines it, from the UTF-8 text. The white-space code points and
  their encodings: the six ASCII ones (tab, line feed, vertical tab, form feed, carriage
  return, space), U+0085, U+00A0, U+1680, U+2000 to U+200A, U+2028, U+2029, U+202F, U+205F
  and U+3000. A byte that starts no valid encoding decodes to the replacement character,
  which is no white space, so trimming stops there.
\<close>

definition space_runes :: "string list" where
  "space_runes =
     [[CHR 0x09], [CHR 0x0A], [CHR 0x0B], [CHR 0x0C], [CHR 0x0D], [CHR 0x20],
      [CHR 0xC2, CHR 0x85], [CHR 0xC2, CHR 0xA0],
      [CHR 0xE1, CHR 0x9A, CHR 0x80],
      [CHR 0xE2, CHR 0x80, CHR 0x80], [CHR 0xE2, CHR 0x80, CHR 0x81],
      [CHR 0xE2, CHR 0x80, CHR 0x82], [CHR 0xE2, CHR 0x80, CHR 0x83],
      [CHR 0xE2, CHR 0x80, CHR 0x84], [CHR 0xE2, CHR 0x80, CHR 0x85],
      [CHR 0xE2, CHR 0x80, CHR 0x86], [CHR 0xE2, CHR 0x80, CHR 0x87],
      [CHR 0xE2, CHR 0x80, CHR 0x88], [CHR 0xE2, CHR 0x80, CHR 0x89],
      [CHR 0xE2, CHR 0x80, CHR 0x8A],
      [CHR 0xE2, CHR 0x80, CHR 0xA8], [CHR 0xE2, CHR 0x80, CHR 0xA9],
      [CHR 0xE2, CHR 0x80, CHR 0xAF], [CHR 0xE2, CHR 0x81, CHR 0x9F],
      [CHR 0xE3, CHR 0x80, CHR 0x80]]"

text \<open>The white-space rune a string starts with, and the one it ends with.\<close>

definition leading_space :: "string \<Rightarrow> string option" where
  "leading_space s = find (\<lambda>e. prefix e s) space_runes"

definition trailing_space :: "string \<Rightarrow> string option" where
  "trailing_space s = find (\<lambda>e. suffix e s) space_runes"

lemma space_runes_nonempty: "e \<in> set space_runes \<Longrightarrow> 0 < length e"
  by (auto simp: space_runes_def)

lemma leading_space_shorter: "leading_space s = Some e \<Longrightarrow> length s - length e < length s"
proof -
  assume h: "leading_space s = Some e"
  then have "e \<in> set space_runes" and "prefix e s"
    by (auto simp: leading_space_def find_Some_iff)
  then show ?thesis
    using space_runes_nonempty [of e] by (auto simp: prefix_def)
qed

lemma trailing_space_shorter: "trailing_space s = Some e \<Longrightarrow> length s - length e < length s"
proof -
  assume h: "trailing_space s = Some e"
  then have "e \<in> set space_runes" and "suffix e s"
    by (auto simp: trailing_space_def find_Some_iff)
  then show ?thesis
    using space_runes_nonempty [of e] by (auto simp: suffix_def)
qed

function TrimLeft_space :: "string \<Rightarrow> string" where
  "TrimLeft_space s =
     (case leading_space s of None \<Rightarrow> s | Some e \<Rightarrow> TrimLeft_space (drop (length e) s))"
  by pat_completeness auto
termination
  by (relation "measure length") (auto simp: leading_space_shorter)

function TrimRight_space :: "string \<Rightarrow> string" where
  "TrimRight_space s =
     (case trailing_space s of
        None \<Rightarrow> s
      | Some e \<Rightarrow> TrimRight_space (take (length s - length e) s))"
  by pat_completeness auto
termination
  by (relation "measure length") (auto simp: trailing_space_shorter)

declare TrimLeft_space.simps [simp del] TrimRight_space.simps [simp del]

definition TrimSpace :: "string \<Rightarrow> string" where
  "TrimSpace s = TrimRight_space (TrimLeft_space s)"

section \<open>Extraction Pipeline\<close>

record BlockUpdate =
  Update_Label :: string
  Update_Content :: string

record Fact =
  Fact_Content :: string
  Fact_Tags :: "string list"

record Triplet =
  Triplet_Subject :: string
  Triplet_Predicate :: string
  Triplet_Object :: string

record ExtractionResult =
  BlockUpdates :: "BlockUpdate list"
  Facts :: "Fact list"
  Triplets :: "Triplet list"
  Result_Summary :: string

text \<open>
  An embedding vector is the list of the 32-bit patterns of its floats
  (\<^verbatim>\<open>math.Float32bits\<close>); a provider maps a text to a vector or fails.
\<close>

type_synonym Provider = "string \<Rightarrow> error + 32 word list"

record Config =
  Config_Provider :: string
  LLMURL :: string
  LLMModel :: string
  APIKey :: string
  EmbedProv :: "Provider option"

text \<open>\<^verbatim>\<open>SerializeEmbedding\<close>: four bytes for each float, the low byte first.\<close>

definition SerializeEmbedding :: "32 word list \<Rightarrow> 8 word list" where
  "SerializeEmbedding v =
     concat (map (\<lambda>w. [ucast w, ucast (drop_bit 8 w), ucast (drop_bit 16 w),
                        ucast (drop_bit 24 w)]) v)"

text \<open>
  What lies outside the program: the three language-model backends, the process
  environment and the JSON decoder. \<open>claude_p text\<close> is the outcome of running the
  \<^verbatim>\<open>claude -p\<close> subprocess on the prompt built from \<open>text\<close>: the error of \<^verbatim>\<open>cmd.Run\<close> or
  the standard output. \<open>anthropic_messages text apiKey\<close> and \<open>ollama_chat text cfg\<close> are
  the outcome of the HTTP exchange up to the text that is decoded next: the error that
  \<^verbatim>\<open>extractWithAnthropic\<close> or \<^verbatim>\<open>extractWithOllama\<close> returns for a failed request, a status
  other than 200, an undecodable envelope or an empty content, or else the text of the
  first content block (of the message). \<open>Unmarshal s\<close> is \<^verbatim>\<open>json.Unmarshal\<close> into an
  \<^verbatim>\<open>ExtractionResult\<close>, \<open>None\<close> when it fails.
\<close>

record world =
  claude_p :: "string \<Rightarrow> error + string"
  anthropic_messages :: "string \<Rightarrow> string \<Rightarrow> error + string"
  ollama_chat :: "string \<Rightarrow> Config \<Rightarrow> error + string"
  Getenv :: "string \<Rightarrow> string"
  Unmarshal :: "string \<Rightarrow> ExtractionResult option"

definition stripCodeFences :: "string \<Rightarrow> string" where
  "stripCodeFences s0 =
     (let s1 = TrimSpace s0;
          s2 = (if HasPrefix s1 ''```''
                then (let idx = Index s1 [CHR 0x0A]
                      in if idx \<noteq> -1 then drop (nat (idx + 1)) s1 else s1)
                else s1);
          s3 = (if HasSuffix s2 ''```'' then take (length s2 - 3) s2 else s2)
      in TrimSpace s3)"

definition decode_result :: "world \<Rightarrow> string \<Rightarrow> error + ExtractionResult" where
  "decode_result w raw =
     (case Unmarshal w raw of
        None \<Rightarrow> Inl (Errorf ''decode extraction result'' (DecodeError raw))
      | Some result \<Rightarrow> Inr result)"

definition extractWithClaude :: "world \<Rightarrow> string \<Rightarrow> error + ExtractionResult" where
  "extractWithClaude w text =
     (case claude_p w text of
        Inl err \<Rightarrow> Inl (Errorf ''claude -p failed'' err)
      | Inr stdout \<Rightarrow>
          (let output = TrimSpace stdout in
           if output = [] then Inl EmptyResponse
           else decode_result w (stripCodeFences output)))"

definition extractWithAnthropic :: "world \<Rightarrow> string \<Rightarrow> string \<Rightarrow> error + ExtractionResult" where
  "extractWithAnthropic w text apiKey =
     (case anthropic_messages w text apiKey of
        Inl err \<Rightarrow> Inl err
      | Inr content \<Rightarrow> decode_result w content)"

definition extractWithOllama :: "world \<Rightarrow> string \<Rightarrow> Config \<Rightarrow> error + ExtractionResult" where
  "extractWithOllama w text cfg =
     (case ollama_chat w text cfg of
        Inl err \<Rightarrow> Inl err
      | Inr content \<Rightarrow> decode_result w content)"

text \<open>
  The first part of \<^verbatim>\<open>Run\<close>: the switch on the provider. An error of the chosen backend
  is wrapped with \<^verbatim>\<open>extract\<close>; a missing key and an unknown provider return at once.
\<close>

definition wrap_extract :: "error + ExtractionResult \<Rightarrow> error + ExtractionResult" where
  "wrap_extract r = (case r of Inl err \<Rightarrow> Inl (Errorf ''extract'' err) | Inr result \<Rightarrow> Inr result)"

definition Run_extract :: "world \<Rightarrow> string \<Rightarrow> Config \<Rightarrow> error + ExtractionResult" where
  "Run_extract w text cfg =
     (if Config_Provider cfg = ''claude'' then wrap_extract (extractWithClaude w text)
      else if Config_Provider cfg = ''anthropic'' then
        (let apiKey = (if APIKey cfg = [] then Getenv w ''ANTHROPIC_API_KEY'' else APIKey cfg)
         in if apiKey = [] then Inl NoAPIKey
            else wrap_extract (extractWithAnthropic w text apiKey))
      else if Config_Provider cfg = ''ollama'' then wrap_extract (extractWithOllama w text cfg)
      else Inl (UnknownProvider (Config_Provider cfg)))"

text \<open>
  The second part of \<^verbatim>\<open>Run\<close>: four loops in a row, each returning at the first store
  error. The state is threaded through, so what was written before an error stays.
\<close>

fun apply_block_updates :: "BlockUpdate list \<Rightarrow> db \<Rightarrow> error option \<times> db" where
  "apply_block_updates [] d = (None, d)"
| "apply_block_updates (bu # bus) d =
     (case BlockStore_GetByLabel (Update_Label bu) d of
        (Inl err, d1) \<Rightarrow>
          (case BlockStore_Create (Update_Label bu) ''core'' (Update_Content bu) d1 of
             (Inl err, d2) \<Rightarrow> (Some (ErrorfQ ''create block'' (Update_Label bu) err), d2)
           | (Inr b, d2) \<Rightarrow> apply_block_updates bus d2)
      | (Inr existing, d1) \<Rightarrow>
          (case BlockStore_Update (Update_Label bu) (Update_Content bu) d1 of
             (Inl err, d2) \<Rightarrow> (Some (ErrorfQ ''update block'' (Update_Label bu) err), d2)
           | (Inr b, d2) \<Rightarrow> apply_block_updates bus d2))"

definition embed_fact :: "Config \<Rightarrow> Fact \<Rightarrow> 8 word list option" where
  "embed_fact cfg f =
     (case EmbedProv cfg of
        None \<Rightarrow> None
      | Some prov \<Rightarrow>
          (case prov (Fact_Content f) of
             Inl err \<Rightarrow> None
           | Inr vec \<Rightarrow> Some (SerializeEmbedding vec)))"

fun store_facts :: "Config \<Rightarrow> Fact list \<Rightarrow> db \<Rightarrow> error option \<times> db" where
  "store_facts cfg [] d = (None, d)"
| "store_facts cfg (f # fs) d =
     (case ArchivalStore_Add (Fact_Content f) (Fact_Tags f) (embed_fact cfg f) d of
        (Inl err, d1) \<Rightarrow> (Some (Errorf ''add fact'' err), d1)
      | (Inr e, d1) \<Rightarrow> store_facts cfg fs d1)"

fun store_triplets :: "Triplet list \<Rightarrow> db \<Rightarrow> error option \<times> db" where
  "store_triplets [] d = (None, d)"
| "store_triplets (t # ts) d =
     (case GraphStore_AddRelation (Triplet_Subject t) (Triplet_Predicate t) (Triplet_Object t) [] d of
        (Some err, d1) \<Rightarrow> (Some (Errorf ''add triplet'' err), d1)
      | (None, d1) \<Rightarrow> store_triplets ts d1)"

definition store_summary :: "string \<Rightarrow> db \<Rightarrow> error option \<times> db" where
  "store_summary summary d =
     (if summary \<noteq> [] then
        (case SummaryStore_Add 0 summary [] d of
           (Inl err, d1) \<Rightarrow> (Some (Errorf ''add summary'' err), d1)
         | (Inr s, d1) \<Rightarrow> (None, d1))
      else (None, d))"

definition Run_apply :: "Config \<Rightarrow> ExtractionResult \<Rightarrow> db \<Rightarrow> (error + ExtractionResult) \<times> db" where
  "Run_apply cfg result d =
     (case apply_block_updates (BlockUpdates result) d of
        (Some err, d1) \<Rightarrow> (Inl err, d1)
      | (None, d1) \<Rightarrow>
          (case store_facts cfg (Facts result) d1 of
             (Some err, d2) \<Rightarrow> (Inl err, d2)
           | (None, d2) \<Rightarrow>
               (case store_triplets (Triplets result) d2 of
                  (Some err, d3) \<Rightarrow> (Inl err, d3)
                | (None, d3) \<Rightarrow>
                    (case store_summary (Result_Summary result) d3 of
                       (Some err, d4) \<Rightarrow> (Inl err, d4)
                     | (None, d4) \<Rightarrow> (Inr result, d4)))))"

definition Run :: "world \<Rightarrow> string \<Rightarrow> Config option \<Rightarrow> db \<Rightarrow> (error + ExtractionResult) \<times> db" where
  "Run w text cfg d =
     (case cfg of
        None \<Rightarrow> (Inl NoConfig, d)
      | Some c \<Rightarrow>
          (case Run_extract w text c of
             Inl err \<Rightarrow> (Inl err, d)
           | Inr result \<Rightarrow> Run_apply c result d))"

text \<open>
  The apply phase in the words of the specification: the extraction result is a sequence
  of writes in the fixed order block updates, facts, triplets, summary (a summary only
  when the string is not empty). One write is one call of a store: a block update updates
  the block when reading it by its label succeeds and creates it with type core
  otherwise; a fact is added to the archival store with the embedding that could be
  computed for it; a triplet is added to the graph store without metadata; the summary is
  added to the summary store at level 0 without source ids. A failure of the store is the
  failure of the write, under the name of the write. The writes are applied one after the
  other, and the first failure ends the sequence with the store as the failing write left
  it.
\<close>

datatype write_op = SetBlock BlockUpdate | AddFact Fact | AddTriplet Triplet | AddSummary string






text \<open>
  \<open>kept ws d d'\<close>: nothing that \<open>d\<close> holds is missing from \<open>d'\<close>. Every archival, entity,
  relation and summary row of \<open>d\<close> is a row of \<open>d'\<close>. Every block of \<open>d\<close> is in \<open>d'\<close> with the
  same id, label, type and creation time, and it is the same row altogether unless one of
  the writes \<open>ws\<close> sets the block of that label to the content that the row now has.
\<close>

fun sets_block :: "write_op \<Rightarrow> string \<Rightarrow> string \<Rightarrow> bool" where
  "sets_block (SetBlock bu) label content \<longleftrightarrow>
     Update_Label bu = label \<and> Update_Content bu = content"
| "sets_block u label content \<longleftrightarrow> False"

definition block_kept :: "write_op list \<Rightarrow> Block \<Rightarrow> Block \<Rightarrow> bool" where
  "block_kept ws b b' \<longleftrightarrow>
     Block_ID b' = Block_ID b \<and> Block_Label b' = Block_Label b \<and>
     Block_BlockType b' = Block_BlockType b \<and> Block_CreatedAt b' = Block_CreatedAt b \<and>
     (b' = b \<or> (\<exists>u \<in> set ws. sets_block u (Block_Label b) (Block_Content b')))"

definition kept :: "write_op list \<Rightarrow> db \<Rightarrow> db \<Rightarrow> bool" where
  "kept ws d d' \<longleftrightarrow>
     (\<forall>b \<in> set (memory_blocks d). \<exists>b' \<in> set (memory_blocks d'). block_kept ws b b') \<and>
     set (archival d) \<subseteq> set (archival d') \<and>
     set (entities d) \<subseteq> set (entities d') \<and>
     set (relations d) \<subseteq> set (relations d') \<and>
     set (conversation_summaries d) \<subseteq> set (conversation_summaries d')"

section \<open>Example stores and inputs\<close>

text \<open>
  An archival table with one row without an embedding, written at time 1, and two rows
  with an embedding, both written at time 2.
\<close>

definition emb_db :: db where
  "emb_db = empty_db\<lparr> archival :=
      [\<lparr> Archival_ID = 1, Archival_Content = ''no embedding'', Archival_Tags = ''a'',
         Archival_Embedding = None, Archival_CreatedAt = 1 \<rparr>,
       \<lparr> Archival_ID = 2, Archival_Content = ''has embedding'', Archival_Tags = ''a,b'',
         Archival_Embedding = Some [1, 2, 3, 4], Archival_CreatedAt = 2 \<rparr>,
       \<lparr> Archival_ID = 3, Archival_Content = ''has one byte'', Archival_Tags = ''a'',
         Archival_Embedding = Some [9], Archival_CreatedAt = 2 \<rparr>],
      archival_seq := 3, now := 3 \<rparr>"

text \<open>
  A graph of two entities, with a relation between them and a relation of the second
  entity to itself.
\<close>

definition graph_db :: db where
  "graph_db = empty_db\<lparr>
      entities :=
        [\<lparr> Entity_ID = 1, Entity_Name = ''Stuart'', Entity_EntityType = [], Entity_CreatedAt = 1 \<rparr>,
         \<lparr> Entity_ID = 2, Entity_Name = ''Moltbot'', Entity_EntityType = [], Entity_CreatedAt = 1 \<rparr>],
      entities_seq := 2,
      relations :=
        [\<lparr> rel_id = 1, rel_subject_id = 1, rel_predicate = ''works_on'', rel_object_id = 2,
           rel_metadata = [], rel_created_at = 1 \<rparr>,
         \<lparr> rel_id = 2, rel_subject_id = 2, rel_predicate = ''depends_on'', rel_object_id = 2,
           rel_metadata = [], rel_created_at = 2 \<rparr>],
      relations_seq := 2, now := 3 \<rparr>"

text \<open>The extraction result of the end-to-end example, and a configuration without embeddings.\<close>

definition example_result :: ExtractionResult where
  "example_result =
     \<lparr> BlockUpdates = [\<lparr> Update_Label = ''human'', Update_Content = ''X'' \<rparr>],
       Facts = [\<lparr> Fact_Content = ''Y'', Fact_Tags = [''t''] \<rparr>],
       Triplets = [\<lparr> Triplet_Subject = ''A'', Triplet_Predicate = ''p'', Triplet_Object = ''B'' \<rparr>],
       Result_Summary = ''S'' \<rparr>"

definition example_config :: Config where
  "example_config =
     \<lparr> Config_Provider = ''claude'', LLMURL = [], LLMModel = [], APIKey = [], EmbedProv = None \<rparr>"



text \<open>An embedding provider that fails on every text.\<close>

definition failing_provider :: Provider where
  "failing_provider text = Inl EmbedFailure"

text \<open>
  A world whose three backends all answer with the empty JSON object inside a fence of
  three backticks (the subprocess with a final line feed), and whose decoder accepts the
  text \<^verbatim>\<open>{}\<close> and nothing else.
\<close>

definition empty_result :: ExtractionResult where
  "empty_result = \<lparr> BlockUpdates = [], Facts = [], Triplets = [], Result_Summary = [] \<rparr>"

definition decode_empty_object :: "string \<Rightarrow> ExtractionResult option" where
  "decode_empty_object s = (if s = ''{}'' then Some empty_result else None)"

definition fenced_json :: string where
  "fenced_json = ''```'' @ ''json'' @ [CHR 0x0A] @ ''{}'' @ [CHR 0x0A] @ ''```''"

definition fence_world :: world where
  "fence_world =
     \<lparr> claude_p = (\<lambda>text. Inr (fenced_json @ [CHR 0x0A])),
       anthropic_messages = (\<lambda>text apiKey. Inr fenced_json),
       ollama_chat = (\<lambda>text cfg. Inr fenced_json),
       Getenv = (\<lambda>name. []),
       Unmarshal = decode_empty_object \<rparr>"

text \<open>
  The empty JSON object inside a fence of tildes, and inside a fence of four backticks;
  a world whose three backends all answer with a given text, with the same decoder.
\<close>

definition tilde_fenced_json :: string where
  "tilde_fenced_json = ''~~~'' @ ''json'' @ [CHR 0x0A] @ ''{}'' @ [CHR 0x0A] @ ''~~~''"

definition long_fenced_json :: string where
  "long_fenced_json = ''````'' @ ''json'' @ [CHR 0x0A] @ ''{}'' @ [CHR 0x0A] @ ''````''"

definition reply_world :: "string \<Rightarrow> world" where
  "reply_world reply =
     \<lparr> claude_p = (\<lambda>text. Inr reply),
       anthropic_messages = (\<lambda>text apiKey. Inr reply),
       ollama_chat = (\<lambda>text cfg. Inr reply),
       Getenv = (\<lambda>name. []),
       Unmarshal = decode_empty_object \<rparr>"

section \<open>Auxiliary facts\<close>

lemma stmt_no_faults: "faults d = [] \<Longrightarrow> stmt d = (False, d)"
  by (simp add: stmt_def)

lemma fold_max_ge: "(s::int) \<le> fold max ids s"
  by (induction ids arbitrary: s) (auto intro: order_trans [OF max.cobounded2])

lemma fold_max_mem: "i \<in> set ids \<Longrightarrow> (i::int) \<le> fold max ids s"
proof (induction ids arbitrary: s)
  case Nil
  then show ?case by simp
next
  case (Cons a ids)
  show ?case
  proof (cases "i = a")
    case True
    have "a \<le> max a s" by simp
    also have "\<dots> \<le> fold max ids (max a s)" by (rule fold_max_ge)
    finally show ?thesis using True by simp
  next
    case False
    then show ?thesis using Cons by simp
  qed
qed

lemma next_rowid_fresh: "i \<in> set ids \<Longrightarrow> i < next_rowid s ids"
  using fold_max_mem [of i ids s] by (simp add: next_rowid_def)

lemma next_rowid_not_mem: "next_rowid s ids \<notin> set ids"
  using next_rowid_fresh [of "next_rowid s ids" ids s] by auto

lemma find_next_rowid: "find (\<lambda>b. f b = next_rowid s (map f xs)) xs = None"
proof -
  have "f x \<noteq> next_rowid s (map f xs)" if "x \<in> set xs" for x
    using that next_rowid_not_mem [of s "map f xs"] by (metis image_eqI set_map)
  then show ?thesis by (auto simp: find_None_iff)
qed

lemma find_snoc:
  "find P (xs @ [x]) = (case find P xs of Some y \<Rightarrow> Some y | None \<Rightarrow> if P x then Some x else None)"
  by (induction xs) auto

lemma Join_comma_join: "Join tags '','' = comma_join tags"
  by (induction tags "'',''" rule: Join.induct) auto

section \<open>Block Store: create, read back, update and delete\<close>

text \<open>
  Claim C5. For a label that no block holds, and an engine that does not fail,
  \<open>create(label, type, content)\<close> returns a block with exactly the created content,
  \<open>getByLabel(label)\<close> then returns that same block, and a second \<open>create\<close> with the same
  label, whatever its type and content, fails with the conflict of the \<^verbatim>\<open>UNIQUE\<close> column
  and leaves the store as it is.
\<close>

theorem C5_create_then_getByLabel:
  assumes "faults d = []" and "\<forall>b \<in> set (memory_blocks d). Block_Label b \<noteq> label"
  shows "\<exists>b d'. BlockStore_Create label blockType content d = (Inr b, d') \<and>
           Block_Content b = content \<and>
           BlockStore_GetByLabel label d' = (Inr b, d') \<and>
           (\<forall>blockType' content'. BlockStore_Create label blockType' content' d' =
              (Inl (Errorf ''create block'' (UniqueConstraint ''memory_blocks.label'')), d'))"
proof -
  define i where "i = next_rowid (memory_blocks_seq d) (map Block_ID (memory_blocks d))"
  define bt where "bt = (if blockType = [] then ''core'' else blockType)"
  define row where "row = \<lparr> Block_ID = i, Block_Label = label, Block_BlockType = bt,
     Block_Content = content, Block_CreatedAt = now d, Block_UpdatedAt = now d \<rparr>"
  define d' where "d' = d\<lparr> memory_blocks := memory_blocks d @ [row], memory_blocks_seq := i \<rparr>"
  have nf: "faults d' = []" using assms(1) by (simp add: d'_def)
  have no_id: "find (\<lambda>b. Block_ID b = i) (memory_blocks d) = None"
    unfolding i_def by (rule find_next_rowid)
  have no_label: "find (\<lambda>b. Block_Label b = label) (memory_blocks d) = None"
    using assms(2) by (simp add: find_None_iff)
  have get_id: "BlockStore_GetByID i d' = (Inr row, d')"
    by (simp add: BlockStore_GetByID_def stmt_no_faults assms(1) d'_def find_snoc no_id row_def)
  have create: "BlockStore_Create label blockType content d = (Inr row, d')"
    using assms(2) get_id
    by (simp add: BlockStore_Create_def stmt_no_faults [OF assms(1)] Let_def i_def bt_def row_def d'_def)
  have get_label: "BlockStore_GetByLabel label d' = (Inr row, d')"
    by (simp add: BlockStore_GetByLabel_def stmt_no_faults assms(1) d'_def find_snoc no_label row_def)
  have again: "BlockStore_Create label bt' c' d' =
      (Inl (Errorf ''create block'' (UniqueConstraint ''memory_blocks.label'')), d')" for bt' c'
    by (simp add: BlockStore_Create_def stmt_no_faults [OF nf] Let_def) (simp add: d'_def row_def)
  show ?thesis
    using create get_label again by (auto simp: row_def)
qed

theorem C5_create_then_getByLabel_witness:
  "\<exists>b d'. BlockStore_Create ''human'' ''core'' ''Stuart'' empty_db = (Inr b, d') \<and>
           Block_Content b = ''Stuart'' \<and>
           BlockStore_GetByLabel ''human'' d' = (Inr b, d') \<and>
           BlockStore_Create ''human'' ''archival'' ''v2'' d' =
              (Inl (Errorf ''create block'' (UniqueConstraint ''memory_blocks.label'')), d')"
  using C5_create_then_getByLabel [of empty_db "''human''" "''core''" "''Stuart''"]
  by (simp add: empty_db_def) blast

text \<open>
  Claim C6. For a label that no block holds, and an engine that does not fail,
  \<open>update(label, content)\<close> returns the error of the read-back, whose cause is
  \<^verbatim>\<open>sql.ErrNoRows\<close> (not found), and leaves the store unchanged; \<open>delete(label)\<close> returns no
  error and leaves the store unchanged.
\<close>

theorem C6_update_delete_absent_label:
  assumes "faults d = []" and "\<forall>b \<in> set (memory_blocks d). Block_Label b \<noteq> label"
  shows "BlockStore_Update label content d = (Inl (ErrorfQ ''get block'' label ErrNoRows), d) \<and>
         cause (ErrorfQ ''get block'' label ErrNoRows) = ErrNoRows \<and>
         BlockStore_Delete label d = (None, d)"
proof -
  have same: "map (\<lambda>b. if Block_Label b = label
                        then b\<lparr> Block_Content := content, Block_UpdatedAt := now d \<rparr> else b)
                (memory_blocks d) = memory_blocks d"
    using assms(2) by (simp add: map_idI)
  have no_label: "find (\<lambda>b. Block_Label b = label) (memory_blocks d) = None"
    using assms(2) by (simp add: find_None_iff)
  have upd: "BlockStore_Update label content d = (Inl (ErrorfQ ''get block'' label ErrNoRows), d)"
    using assms(1)
    by (simp add: BlockStore_Update_def BlockStore_GetByLabel_def stmt_no_faults same no_label)
  have keep: "filter (\<lambda>b. Block_Label b \<noteq> label) (memory_blocks d) = memory_blocks d"
    using assms(2) by simp
  have del: "BlockStore_Delete label d = (None, d)"
    using assms(1) by (simp add: BlockStore_Delete_def stmt_no_faults keep)
  show ?thesis using upd del by simp
qed

theorem C6_update_delete_absent_label_witness:
  "BlockStore_Update ''nope'' ''x'' empty_db =
     (Inl (ErrorfQ ''get block'' ''nope'' ErrNoRows), empty_db) \<and>
   BlockStore_Delete ''nope'' empty_db = (None, empty_db)"
  using C6_update_delete_absent_label [of empty_db "''nope''" "''x''"]
  by (simp add: empty_db_def)

section \<open>Archival Store: tags and embeddings\<close>

text \<open>
  Claim C7. With an engine that does not fail, \<open>add(content, tags, embedding)\<close> appends one
  row to the table and returns it as read back from the table; its \<open>tags\<close> field is the
  comma-join of the tag list in order, which is the empty string for the empty (or nil)
  list.
\<close>

theorem C7_add_joins_tags:
  assumes "faults d = []"
  shows "\<exists>e d'. ArchivalStore_Add content tags embedding d = (Inr e, d') \<and>
           Archival_Tags e = comma_join tags \<and>
           ArchivalStore_GetByID (Archival_ID e) d' = (Inr e, d') \<and>
           archival d' = archival d @ [e] \<and>
           comma_join [] = []"
proof -
  define i where "i = next_rowid (archival_seq d) (map Archival_ID (archival d))"
  define row where "row = \<lparr> Archival_ID = i, Archival_Content = content,
     Archival_Tags = Join tags '','', Archival_Embedding = embedding,
     Archival_CreatedAt = now d \<rparr>"
  define d' where "d' = d\<lparr> archival := archival d @ [row], archival_seq := i \<rparr>"
  have no_id: "find (\<lambda>e. Archival_ID e = i) (archival d) = None"
    unfolding i_def by (rule find_next_rowid)
  have get_id: "ArchivalStore_GetByID i d' = (Inr row, d')"
    using assms
    by (simp add: ArchivalStore_GetByID_def stmt_no_faults d'_def find_snoc no_id row_def)
  have add: "ArchivalStore_Add content tags embedding d = (Inr row, d')"
    using assms get_id
    by (simp add: ArchivalStore_Add_def stmt_no_faults Let_def i_def row_def d'_def)
  have "Archival_Tags row = comma_join tags"
    by (simp add: row_def Join_comma_join)
  moreover have "Archival_ID row = i" by (simp add: row_def)
  moreover have "archival d' = archival d @ [row]" by (simp add: d'_def)
  ultimately show ?thesis using add get_id by auto
qed

theorem C7_add_joins_tags_witness:
  "\<exists>e d'. ArchivalStore_Add ''Go is great for CLIs'' [''tech'', ''opinion''] None empty_db = (Inr e, d') \<and>
     Archival_Tags e = ''tech,opinion'' \<and>
     ArchivalStore_GetByID (Archival_ID e) d' = (Inr e, d')"
  using C7_add_joins_tags [of empty_db "''Go is great for CLIs''" "[''tech'', ''opinion'']" None]
  by (simp add: empty_db_def) blast

lemma scan_without_embedding_None: "Archival_Embedding (scan_without_embedding r) = None"
  by (simp add: scan_without_embedding_def)

lemma GetByID_id:
  "ArchivalStore_GetByID i d = (Inr e, d') \<Longrightarrow> e \<in> set (archival d) \<and> Archival_ID e = i"
proof -
  assume h: "ArchivalStore_GetByID i d = (Inr e, d')"
  then have "find (\<lambda>e. Archival_ID e = i) (archival d) = Some e"
    by (auto simp: ArchivalStore_GetByID_def stmt_def
        split: prod.splits bool.splits option.splits list.splits)
  then show ?thesis by (auto simp: find_Some_iff)
qed

lemma Add_returns_row:
  assumes "ArchivalStore_Add content tags embedding d = (Inr e, d')"
  shows "e \<in> set (archival d') \<and> Archival_Embedding e = embedding \<and>
         (\<exists>d0. ArchivalStore_GetByID (Archival_ID e) d0 = (Inr e, d'))"
proof -
  obtain f d1 where st: "stmt d = (f, d1)" by (cases "stmt d") auto
  have nf: "\<not> f" using assms st by (auto simp: ArchivalStore_Add_def)
  define i where "i = next_rowid (archival_seq d1) (map Archival_ID (archival d1))"
  define row where "row = \<lparr> Archival_ID = i, Archival_Content = content,
     Archival_Tags = Join tags '','', Archival_Embedding = embedding,
     Archival_CreatedAt = now d1 \<rparr>"
  define d0 where "d0 = d1\<lparr> archival := archival d1 @ [row], archival_seq := i \<rparr>"
  have g: "ArchivalStore_GetByID i d0 = (Inr e, d')"
    using assms st nf by (simp add: ArchivalStore_Add_def Let_def i_def row_def d0_def)
  have no_id: "find (\<lambda>e. Archival_ID e = i) (archival d1) = None"
    unfolding i_def by (rule find_next_rowid)
  have fnd: "find (\<lambda>e. Archival_ID e = i) (archival d0) = Some row"
    by (simp add: d0_def find_snoc no_id) (simp add: row_def)
  have "archival d' = archival d0 \<and> find (\<lambda>e. Archival_ID e = i) (archival d0) = Some e"
    using g
    by (auto simp: ArchivalStore_GetByID_def stmt_def
        split: prod.splits bool.splits option.splits list.splits)
  then have e: "e = row" and rows: "archival d' = archival d0"
    using fnd by simp_all
  have "Archival_ID e = i" by (simp add: e row_def)
  then have "\<exists>d0. ArchivalStore_GetByID (Archival_ID e) d0 = (Inr e, d')"
    using g by blast
  moreover have "e \<in> set (archival d')" by (simp add: rows e d0_def)
  moreover have "Archival_Embedding e = embedding" by (simp add: e row_def)
  ultimately show ?thesis by blast
qed

text \<open>
  Claim C10, second half as stated: the stored embedding bytes are returned by \<open>getByID\<close>
  and \<open>allWithEmbeddings\<close> only. It fails at \<open>add\<close>: on the empty store, adding a fact
  with the four bytes 5, 6, 7, 8 as its embedding returns an entry that carries these
  four bytes, the bytes of the row that the table then holds.
\<close>

theorem C10_add_returns_embedding_counterexample:
  "\<exists>e d'. ArchivalStore_Add ''fact'' [] (Some [5, 6, 7, 8]) empty_db = (Inr e, d') \<and>
          archival d' = [e] \<and> Archival_ID e = 1 \<and> Archival_Embedding e = Some [5, 6, 7, 8]"
  by (simp add: ArchivalStore_Add_def ArchivalStore_GetByID_def stmt_def Let_def
      next_rowid_def empty_db_def)

text \<open>
  Claim C10. Every entry that \<open>search(query, limit)\<close> returns, and every entry that
  \<open>list(tagFilter, limit)\<close> returns, has an empty embedding field, whatever the stored row
  holds. The three other operations that return entries return stored rows with the
  embedding bytes as stored: \<open>getByID\<close> returns the stored row with the id,
  \<open>allWithEmbeddings\<close> returns the stored rows that hold an embedding, and \<open>add\<close> returns
  the row it has just stored, which is what \<open>getByID\<close> reads back for the new id, with the
  embedding passed to \<open>add\<close>.
\<close>

theorem C10_search_list_without_embedding:
  "(\<forall>es d'. ArchivalStore_Search fts query limit d = (Inr es, d') \<longrightarrow>
      (\<forall>e \<in> set es. Archival_Embedding e = None)) \<and>
   (\<forall>es d'. ArchivalStore_List like tag limit' d = (Inr es, d') \<longrightarrow>
      (\<forall>e \<in> set es. Archival_Embedding e = None)) \<and>
   (\<forall>e d'. ArchivalStore_GetByID i d = (Inr e, d') \<longrightarrow>
      e \<in> set (archival d) \<and> Archival_ID e = i) \<and>
   (\<forall>es d'. ArchivalStore_AllWithEmbeddings d = (Inr es, d') \<longrightarrow>
      es = filter (\<lambda>r. Archival_Embedding r \<noteq> None) (archival d)) \<and>
   (\<forall>e d'. ArchivalStore_Add content tags embedding d = (Inr e, d') \<longrightarrow>
      e \<in> set (archival d') \<and> Archival_Embedding e = embedding \<and>
      (\<exists>d0. ArchivalStore_GetByID (Archival_ID e) d0 = (Inr e, d')))"
proof (intro conjI allI impI)
  fix es d'
  assume "ArchivalStore_Search fts query limit d = (Inr es, d')"
  then obtain rows where "es = map scan_without_embedding rows"
    by (auto simp: ArchivalStore_Search_def Let_def split: prod.splits bool.splits option.splits if_splits)
  then show "\<forall>e \<in> set es. Archival_Embedding e = None"
    by (auto simp: scan_without_embedding_None)
next
  fix es d'
  assume "ArchivalStore_List like tag limit' d = (Inr es, d')"
  then obtain rows where "es = map scan_without_embedding rows"
    by (auto simp: ArchivalStore_List_def Let_def split: prod.splits bool.splits if_splits)
  then show "\<forall>e \<in> set es. Archival_Embedding e = None"
    by (auto simp: scan_without_embedding_None)
next
  fix e d'
  assume h: "ArchivalStore_GetByID i d = (Inr e, d')"
  then have "find (\<lambda>e. Archival_ID e = i) (archival d) = Some e"
    by (auto simp: ArchivalStore_GetByID_def stmt_def split: prod.splits bool.splits option.splits list.splits)
  then show "e \<in> set (archival d)" and "Archival_ID e = i"
    by (auto simp: find_Some_iff)
next
  fix es d'
  assume "ArchivalStore_AllWithEmbeddings d = (Inr es, d')"
  then show "es = filter (\<lambda>r. Archival_Embedding r \<noteq> None) (archival d)"
    by (auto simp: ArchivalStore_AllWithEmbeddings_def stmt_def split: prod.splits bool.splits list.splits)
next
  fix e d'
  assume h: "ArchivalStore_Add content tags embedding d = (Inr e, d')"
  show "e \<in> set (archival d')" and "Archival_Embedding e = embedding"
    and "\<exists>d0. ArchivalStore_GetByID (Archival_ID e) d0 = (Inr e, d')"
    using Add_returns_row [OF h] by simp_all
qed

theorem C10_search_list_without_embedding_witness:
  "(\<exists>es. ArchivalStore_Search (\<lambda>q rows. Some rows) ''embedding'' 10 emb_db = (Inr es, emb_db) \<and>
         map Archival_ID es = [1, 2, 3] \<and> map Archival_Embedding es = [None, None, None]) \<and>
   (\<exists>es. ArchivalStore_List (\<lambda>p t. True) ''a'' 0 emb_db = (Inr es, emb_db) \<and>
         map Archival_ID es = [2, 3, 1] \<and> map Archival_Embedding es = [None, None, None]) \<and>
   (\<exists>e. ArchivalStore_GetByID 2 emb_db = (Inr e, emb_db) \<and>
         Archival_Embedding e = Some [1, 2, 3, 4]) \<and>
   (\<exists>es. ArchivalStore_AllWithEmbeddings emb_db = (Inr es, emb_db) \<and>
         map Archival_Embedding es = [Some [1, 2, 3, 4], Some [9]]) \<and>
   (\<exists>e d' d0. ArchivalStore_Add ''fourth'' [''x''] (Some [5, 6]) emb_db = (Inr e, d') \<and>
         Archival_ID e = 4 \<and> e \<in> set (archival d') \<and> Archival_Embedding e = Some [5, 6] \<and>
         ArchivalStore_GetByID (Archival_ID e) d0 = (Inr e, d'))"
proof -
  let ?F = "\<lambda>(q::string) (rows::ArchivalEntry list). Some rows"
  let ?L = "\<lambda>(p::string) (t::string). True"
  let ?a = "\<lparr> Archival_ID = 1, Archival_Content = ''no embedding'', Archival_Tags = ''a'',
         Archival_Embedding = None, Archival_CreatedAt = 1 \<rparr>"
  let ?b = "\<lparr> Archival_ID = 2, Archival_Content = ''has embedding'', Archival_Tags = ''a,b'',
         Archival_Embedding = Some [1, 2, 3, 4], Archival_CreatedAt = 2 \<rparr>"
  let ?b' = "\<lparr> Archival_ID = 3, Archival_Content = ''has one byte'', Archival_Tags = ''a'',
         Archival_Embedding = Some [9], Archival_CreatedAt = 2 \<rparr>"
  have nf: "faults emb_db = []" by (simp add: emb_db_def empty_db_def)
  have rows: "archival emb_db = [?a, ?b, ?b']"
    by (simp add: emb_db_def)
  have s: "ArchivalStore_Search ?F ''embedding'' 10 emb_db =
      (Inr [scan_without_embedding ?a, scan_without_embedding ?b, scan_without_embedding ?b'],
       emb_db)"
    by (simp add: ArchivalStore_Search_def stmt_no_faults [OF nf] rows)
  have l: "ArchivalStore_List ?L ''a'' 0 emb_db =
      (Inr [scan_without_embedding ?b, scan_without_embedding ?b', scan_without_embedding ?a],
       emb_db)"
    by (simp add: ArchivalStore_List_def stmt_no_faults [OF nf] rows order_desc_def)
  have g: "ArchivalStore_GetByID 2 emb_db = (Inr ?b, emb_db)"
    by (simp add: ArchivalStore_GetByID_def stmt_no_faults [OF nf] rows)
  have a: "ArchivalStore_AllWithEmbeddings emb_db = (Inr [?b, ?b'], emb_db)"
    by (simp add: ArchivalStore_AllWithEmbeddings_def stmt_no_faults [OF nf] rows)
  note c = C10_search_list_without_embedding [where fts = ?F and query = "''embedding''" and limit = 10 and d = emb_db
      and like = ?L and tag = "''a''" and limit' = 0 and i = 2
      and content = "''fourth''" and tags = "[''x'']" and embedding = "Some [5, 6]"]
  have e1: "\<forall>e \<in> set [scan_without_embedding ?a, scan_without_embedding ?b,
      scan_without_embedding ?b']. Archival_Embedding e = None"
    using c s by blast
  have e2: "\<forall>e \<in> set [scan_without_embedding ?b, scan_without_embedding ?b',
      scan_without_embedding ?a]. Archival_Embedding e = None"
    using c l by blast
  have ids: "Archival_ID (scan_without_embedding ?a) = 1" "Archival_ID (scan_without_embedding ?b) = 2"
    "Archival_ID (scan_without_embedding ?b') = 3"
    by (simp_all add: scan_without_embedding_def)
  let ?c = "\<lparr> Archival_ID = 4, Archival_Content = ''fourth'', Archival_Tags = ''x'',
         Archival_Embedding = Some [5, 6], Archival_CreatedAt = 3 \<rparr>"
  have seq: "archival_seq emb_db = 3" "now emb_db = 3"
    by (simp_all add: emb_db_def empty_db_def)
  have ad: "ArchivalStore_Add ''fourth'' [''x''] (Some [5, 6]) emb_db =
      (Inr ?c, emb_db\<lparr> archival := [?a, ?b, ?b', ?c], archival_seq := 4 \<rparr>)"
    by (simp add: ArchivalStore_Add_def ArchivalStore_GetByID_def stmt_def rows seq
        nf next_rowid_def Let_def)
  have "?c \<in> set (archival (emb_db\<lparr> archival := [?a, ?b, ?b', ?c], archival_seq := 4 \<rparr>)) \<and>
      Archival_Embedding ?c = Some [5, 6] \<and>
      (\<exists>d0. ArchivalStore_GetByID (Archival_ID ?c) d0 =
      (Inr ?c, emb_db\<lparr> archival := [?a, ?b, ?b', ?c], archival_seq := 4 \<rparr>))"
    using c ad by blast
  then have e3: "\<exists>e d' d0. ArchivalStore_Add ''fourth'' [''x''] (Some [5, 6]) emb_db = (Inr e, d') \<and>
         Archival_ID e = 4 \<and> e \<in> set (archival d') \<and> Archival_Embedding e = Some [5, 6] \<and>
         ArchivalStore_GetByID (Archival_ID e) d0 = (Inr e, d')"
    using ad by auto
  have first: "(\<exists>es. ArchivalStore_Search ?F ''embedding'' 10 emb_db = (Inr es, emb_db) \<and>
         map Archival_ID es = [1, 2, 3] \<and> map Archival_Embedding es = [None, None, None]) \<and>
   (\<exists>es. ArchivalStore_List ?L ''a'' 0 emb_db = (Inr es, emb_db) \<and>
         map Archival_ID es = [2, 3, 1] \<and> map Archival_Embedding es = [None, None, None]) \<and>
   (\<exists>e. ArchivalStore_GetByID 2 emb_db = (Inr e, emb_db) \<and>
         Archival_Embedding e = Some [1, 2, 3, 4]) \<and>
   (\<exists>es. ArchivalStore_AllWithEmbeddings emb_db = (Inr es, emb_db) \<and>
         map Archival_Embedding es = [Some [1, 2, 3, 4], Some [9]])"
    using e1 e2 ids by (simp add: s l g a)
  show ?thesis
    using first e3 by blast
qed


section \<open>Graph Store: idempotent writes and the entity query\<close>

lemma find_append_Some: "find P xs = Some x \<Longrightarrow> find P (xs @ ys) = Some x"
  by (induction xs) (auto split: if_splits)

lemma filter_unique:
  "distinct (map f xs) \<Longrightarrow>
   filter (\<lambda>x. f x = k) xs = (case find (\<lambda>x. f x = k) xs of None \<Rightarrow> [] | Some x \<Rightarrow> [x])"
proof (induction xs)
  case Nil
  then show ?case by simp
next
  case (Cons a xs)
  show ?case
  proof (cases "f a = k")
    case True
    then have "\<forall>x \<in> set xs. f x \<noteq> k" using Cons.prems by (auto simp: image_iff)
    then have "filter (\<lambda>x. f x = k) xs = []" by (simp add: filter_empty_conv)
    then show ?thesis using True by simp
  next
    case False
    then show ?thesis using Cons by simp
  qed
qed

lemma find_distinct_key:
  "distinct (map f xs) \<Longrightarrow> x \<in> set xs \<Longrightarrow> find (\<lambda>y. f y = f x) xs = Some x"
proof (induction xs)
  case Nil
  then show ?case by simp
next
  case (Cons a xs)
  then show ?case by (cases "a = x") (auto simp: image_iff)
qed

lemma distinct_key_eq:
  "distinct (map f xs) \<Longrightarrow> x \<in> set xs \<Longrightarrow> y \<in> set xs \<Longrightarrow> f x = f y \<Longrightarrow> x = y"
  by (meson distinct_map inj_on_def)

lemma count_unique_key:
  assumes "distinct (map f xs)" and "x \<in> set xs"
  shows "length (filter (\<lambda>y. f y = f x) xs) = 1"
  using filter_unique [OF assms(1), of "f x"] find_distinct_key [OF assms] by simp

lemma EnsureEntity_present:
  assumes "faults d = []" and "find (\<lambda>e. Entity_Name e = name) (entities d) = Some e"
  shows "GraphStore_EnsureEntity name t d =
           (Inr (Entity_ID e),
            d\<lparr> entities_seq := next_rowid (entities_seq d) (map Entity_ID (entities d)) \<rparr>)"
proof -
  have "\<exists>e \<in> set (entities d). Entity_Name e = name"
    using assms(2) by (auto simp: find_Some_iff)
  then show ?thesis
    using assms by (simp add: GraphStore_EnsureEntity_def stmt_no_faults Let_def)
qed

lemma EnsureEntity_absent:
  assumes "faults d = []" and "\<forall>e \<in> set (entities d). Entity_Name e \<noteq> name"
  shows "\<exists>e. GraphStore_EnsureEntity name t d =
            (Inr (Entity_ID e), d\<lparr> entities := entities d @ [e], entities_seq := Entity_ID e \<rparr>) \<and>
          Entity_Name e = name \<and> Entity_ID e \<notin> Entity_ID ` set (entities d)"
proof -
  define i where "i = next_rowid (entities_seq d) (map Entity_ID (entities d))"
  define row where "row = \<lparr> Entity_ID = i, Entity_Name = name, Entity_EntityType = t,
     Entity_CreatedAt = now d \<rparr>"
  have none: "find (\<lambda>e. Entity_Name e = name) (entities d) = None"
    using assms(2) by (simp add: find_None_iff)
  have "GraphStore_EnsureEntity name t d =
      (Inr i, d\<lparr> entities := entities d @ [row], entities_seq := i \<rparr>)"
    using assms
    by (simp add: GraphStore_EnsureEntity_def stmt_no_faults Let_def find_snoc none
        flip: i_def row_def) (simp add: row_def)
  moreover have "i \<notin> Entity_ID ` set (entities d)"
    using next_rowid_not_mem [of "entities_seq d" "map Entity_ID (entities d)"]
    by (simp add: i_def)
  ultimately show ?thesis
    by (intro exI [of _ row]) (simp add: row_def)
qed

lemma EnsureEntity_effect:
  assumes "faults d = []" and "graph_ok d"
  shows "\<exists>e d'. GraphStore_EnsureEntity name t d = (Inr (Entity_ID e), d') \<and>
           faults d' = [] \<and> graph_ok d' \<and> relations d' = relations d \<and>
           relations_seq d' = relations_seq d \<and>
           find (\<lambda>e. Entity_Name e = name) (entities d') = Some e \<and>
           (\<exists>new. entities d' = entities d @ new)"
proof (cases "find (\<lambda>e. Entity_Name e = name) (entities d)")
  case (Some e)
  let ?d' = "d\<lparr> entities_seq := next_rowid (entities_seq d) (map Entity_ID (entities d)) \<rparr>"
  have "graph_ok ?d'"
    using assms(2) by (simp add: graph_ok_def)
  then show ?thesis
    using EnsureEntity_present [OF assms(1) Some, of t] assms(1) Some
    by (intro exI [of _ e] exI [of _ ?d']) simp
next
  case None
  then have abs: "\<forall>e \<in> set (entities d). Entity_Name e \<noteq> name"
    by (simp add: find_None_iff)
  from EnsureEntity_absent [OF assms(1) abs, of t] obtain e where
    run: "GraphStore_EnsureEntity name t d =
            (Inr (Entity_ID e), d\<lparr> entities := entities d @ [e], entities_seq := Entity_ID e \<rparr>)"
    and nm: "Entity_Name e = name" and fresh: "Entity_ID e \<notin> Entity_ID ` set (entities d)"
    by blast
  let ?d' = "d\<lparr> entities := entities d @ [e], entities_seq := Entity_ID e \<rparr>"
  have "graph_ok ?d'"
    using assms(2) fresh abs nm by (auto simp: graph_ok_def)
  moreover have "find (\<lambda>e. Entity_Name e = name) (entities ?d') = Some e"
    using None nm by (simp add: find_snoc)
  ultimately show ?thesis
    using run assms(1) by auto
qed


lemma AddRelation_again:
  assumes "faults d = []"
    and "find (\<lambda>e. Entity_Name e = subject) (entities d) = Some es"
    and "find (\<lambda>e. Entity_Name e = object) (entities d) = Some eo"
    and "\<exists>r \<in> set (relations d). rel_key r = (Entity_ID es, predicate, Entity_ID eo)"
  shows "\<exists>d'. GraphStore_AddRelation subject predicate object metadata d = (None, d') \<and>
           same_rows d d' \<and> faults d' = []"
proof -
  let ?d1 = "d\<lparr> entities_seq := next_rowid (entities_seq d) (map Entity_ID (entities d)) \<rparr>"
  let ?d2 = "?d1\<lparr> entities_seq := next_rowid (entities_seq ?d1) (map Entity_ID (entities ?d1)) \<rparr>"
  have nf1: "faults ?d1 = []" and nf2: "faults ?d2 = []"
    using assms(1) by simp_all
  have f2: "find (\<lambda>e. Entity_Name e = object) (entities ?d1) = Some eo"
    using assms(3) by simp
  have e1: "GraphStore_EnsureEntity subject [] d = (Inr (Entity_ID es), ?d1)"
    by (rule EnsureEntity_present [OF assms(1) assms(2)])
  have e2: "GraphStore_EnsureEntity object [] ?d1 = (Inr (Entity_ID eo), ?d2)"
    by (rule EnsureEntity_present [OF nf1 f2])
  have dup: "\<exists>r \<in> set (relations ?d2). rel_subject_id r = Entity_ID es \<and>
          rel_predicate r = predicate \<and> rel_object_id r = Entity_ID eo"
    using assms(4) by (simp add: rel_key_def)
  have "GraphStore_AddRelation subject predicate object metadata d =
      (None, ?d2\<lparr> relations_seq := next_rowid (relations_seq ?d2) (map rel_id (relations ?d2)) \<rparr>)"
    using dup assms(1) by (simp add: GraphStore_AddRelation_def e1 e2 stmt_def Let_def)
  then show ?thesis
    using assms(1) by (simp add: same_rows_def)
qed

lemma AddRelation_effect:
  assumes "faults d = []" and "graph_ok d"
  shows "\<exists>es eo d'. GraphStore_AddRelation subject predicate object metadata d = (None, d') \<and>
           faults d' = [] \<and> graph_ok d' \<and>
           find (\<lambda>e. Entity_Name e = subject) (entities d') = Some es \<and>
           find (\<lambda>e. Entity_Name e = object) (entities d') = Some eo \<and>
           (\<exists>r \<in> set (relations d'). rel_key r = (Entity_ID es, predicate, Entity_ID eo))"
proof -
  from EnsureEntity_effect [OF assms, of subject "[]"] obtain es d1 where
    r1: "GraphStore_EnsureEntity subject [] d = (Inr (Entity_ID es), d1)"
    and nf1: "faults d1 = []" and ok1: "graph_ok d1"
    and f1: "find (\<lambda>e. Entity_Name e = subject) (entities d1) = Some es"
    by blast
  from EnsureEntity_effect [OF nf1 ok1, of object "[]"] obtain eo d2 where
    r2: "GraphStore_EnsureEntity object [] d1 = (Inr (Entity_ID eo), d2)"
    and nf2: "faults d2 = []" and ok2: "graph_ok d2"
    and f2: "find (\<lambda>e. Entity_Name e = object) (entities d2) = Some eo"
    and ext: "\<exists>new. entities d2 = entities d1 @ new"
    by blast
  have f1': "find (\<lambda>e. Entity_Name e = subject) (entities d2) = Some es"
    using ext f1 by (auto simp: find_append_Some)
  let ?k = "(Entity_ID es, predicate, Entity_ID eo)"
  define i where "i = next_rowid (relations_seq d2) (map rel_id (relations d2))"
  show ?thesis
  proof (cases "\<exists>r \<in> set (relations d2). rel_key r = ?k")
    case True
    define d3 where "d3 = d2\<lparr> relations_seq := i \<rparr>"
    have dup: "\<exists>r \<in> set (relations d2). rel_subject_id r = Entity_ID es \<and>
          rel_predicate r = predicate \<and> rel_object_id r = Entity_ID eo"
      using True by (simp add: rel_key_def)
    have run: "GraphStore_AddRelation subject predicate object metadata d = (None, d3)"
      by (simp add: GraphStore_AddRelation_def r1 r2 stmt_no_faults [OF nf2] Let_def
          d3_def i_def dup)
    have ok3: "graph_ok d3"
      using ok2 by (simp add: graph_ok_def d3_def)
    have same: "entities d3 = entities d2" "faults d3 = []" "relations d3 = relations d2"
      using nf2 by (simp_all add: d3_def)
    show ?thesis
      using run ok3 f1' f2 True same by auto
  next
    case False
    define row where "row = \<lparr> rel_id = i, rel_subject_id = Entity_ID es,
       rel_predicate = predicate, rel_object_id = Entity_ID eo, rel_metadata = metadata,
       rel_created_at = now d2 \<rparr>"
    define d3 where "d3 = d2\<lparr> relations := relations d2 @ [row], relations_seq := i \<rparr>"
    have no: "\<not> (\<exists>r \<in> set (relations d2). rel_subject_id r = Entity_ID es \<and>
          rel_predicate r = predicate \<and> rel_object_id r = Entity_ID eo)"
      using False by (simp add: rel_key_def)
    have run: "GraphStore_AddRelation subject predicate object metadata d = (None, d3)"
      by (simp add: GraphStore_AddRelation_def r1 r2 stmt_no_faults [OF nf2] Let_def
          d3_def row_def i_def no)
    have key: "rel_key row = ?k" by (simp add: rel_key_def row_def)
    have fresh: "i \<notin> rel_id ` set (relations d2)"
      using next_rowid_not_mem [of "relations_seq d2" "map rel_id (relations d2)"]
      by (simp add: i_def)
    have "rel_id row = i" by (simp add: row_def)
    then have ok3: "graph_ok d3"
      using ok2 False fresh key by (auto simp: graph_ok_def d3_def)
    have "entities d3 = entities d2" "faults d3 = []" "row \<in> set (relations d3)"
      using nf2 by (simp_all add: d3_def)
    then show ?thesis using run ok3 f1' f2 key by auto
  qed
qed

lemma length_filter_map_filter:
  "length (filter Q (List.map_filter g xs)) =
   length (filter (\<lambda>x. case g x of None \<Rightarrow> False | Some y \<Rightarrow> Q y) xs)"
  by (induction xs) (auto simp: map_filter_simps split: option.splits)

lemma names_iff_key:
  assumes ok: "graph_ok d"
    and fs: "find (\<lambda>e. Entity_Name e = subject) (entities d) = Some es"
    and fo: "find (\<lambda>e. Entity_Name e = object) (entities d) = Some eo"
  shows "(case relation_of d r of
            None \<Rightarrow> False
          | Some R \<Rightarrow> Relation_Subject R = subject \<and> Relation_Predicate R = predicate \<and>
              Relation_Object R = object)
         \<longleftrightarrow> rel_key r = (Entity_ID es, predicate, Entity_ID eo)"
proof -
  have ids: "distinct (map Entity_ID (entities d))" and nms: "distinct (map Entity_Name (entities d))"
    using ok by (simp_all add: graph_ok_def)
  have es: "es \<in> set (entities d)" "Entity_Name es = subject"
    using fs by (auto simp: find_Some_iff)
  have eo: "eo \<in> set (entities d)" "Entity_Name eo = object"
    using fo by (auto simp: find_Some_iff)
  show ?thesis
  proof
    assume lhs: "case relation_of d r of
            None \<Rightarrow> False
          | Some R \<Rightarrow> Relation_Subject R = subject \<and> Relation_Predicate R = predicate \<and>
              Relation_Object R = object"
    then obtain s' o' where
      s': "find (\<lambda>e. Entity_ID e = rel_subject_id r) (entities d) = Some s'"
      and o': "find (\<lambda>e. Entity_ID e = rel_object_id r) (entities d) = Some o'"
      by (auto simp: relation_of_def split: option.splits)
    then have names: "Entity_Name s' = subject" "rel_predicate r = predicate" "Entity_Name o' = object"
      using lhs by (simp_all add: relation_of_def scan_relation_def)
    have mem: "s' \<in> set (entities d)" "Entity_ID s' = rel_subject_id r"
      "o' \<in> set (entities d)" "Entity_ID o' = rel_object_id r"
      using s' o' by (auto simp: find_Some_iff)
    have "s' = es"
      using distinct_key_eq [OF nms mem(1) es(1)] names(1) es(2) by simp
    moreover have "o' = eo"
      using distinct_key_eq [OF nms mem(3) eo(1)] names(3) eo(2) by simp
    ultimately show "rel_key r = (Entity_ID es, predicate, Entity_ID eo)"
      using mem names by (simp add: rel_key_def)
  next
    assume rhs: "rel_key r = (Entity_ID es, predicate, Entity_ID eo)"
    then have k: "rel_subject_id r = Entity_ID es" "rel_predicate r = predicate"
      "rel_object_id r = Entity_ID eo"
      by (simp_all add: rel_key_def)
    have "find (\<lambda>e. Entity_ID e = rel_subject_id r) (entities d) = Some es"
      using find_distinct_key [OF ids es(1)] k by simp
    moreover have "find (\<lambda>e. Entity_ID e = rel_object_id r) (entities d) = Some eo"
      using find_distinct_key [OF ids eo(1)] k by simp
    ultimately show "case relation_of d r of
            None \<Rightarrow> False
          | Some R \<Rightarrow> Relation_Subject R = subject \<and> Relation_Predicate R = predicate \<and>
              Relation_Object R = object"
      using es eo k by (simp add: relation_of_def scan_relation_def)
  qed
qed

lemma one_relation_for_triple:
  assumes ok: "graph_ok d"
    and fs: "find (\<lambda>e. Entity_Name e = subject) (entities d) = Some es"
    and fo: "find (\<lambda>e. Entity_Name e = object) (entities d) = Some eo"
    and row: "r0 \<in> set (relations d)" "rel_key r0 = (Entity_ID es, predicate, Entity_ID eo)"
  shows "length (filter (\<lambda>R. Relation_Subject R = subject \<and> Relation_Predicate R = predicate \<and>
                            Relation_Object R = object) (all_relations d)) = 1"
proof -
  have keys: "distinct (map rel_key (relations d))"
    using ok by (simp add: graph_ok_def)
  have "length (filter (\<lambda>R. Relation_Subject R = subject \<and> Relation_Predicate R = predicate \<and>
                            Relation_Object R = object) (all_relations d))
      = length (filter (\<lambda>r. rel_key r = rel_key r0) (relations d))"
    unfolding all_relations_def length_filter_map_filter
    using names_iff_key [OF ok fs fo] row(2) by simp
  also have "\<dots> = 1"
    by (rule count_unique_key [OF keys row(1)])
  finally show ?thesis .
qed

text \<open>
  Claim C8. With an engine that does not fail, \<open>ensureEntity(name, type)\<close> called twice
  with the same name, whatever the two types, returns the same id both times without
  error; the second call leaves every row as it is and only moves the counter of the
  table on. On tables that satisfy the constraints of the schema, \<open>addRelation\<close> called
  twice with the same subject, predicate and object (whatever the metadata) succeeds both
  times, the second call leaves every table with the same rows, and the graph then holds
  exactly one relation with that subject, predicate and object.
\<close>

theorem C8_ensureEntity_addRelation_idempotent:
  assumes "faults d = []"
  shows "(\<exists>i d1. GraphStore_EnsureEntity name entityType d = (Inr i, d1) \<and>
                  GraphStore_EnsureEntity name entityType' d1 =
                    (Inr i, d1\<lparr> entities_seq :=
                                  next_rowid (entities_seq d1) (map Entity_ID (entities d1)) \<rparr>)) \<and>
         (graph_ok d \<longrightarrow>
           (\<exists>d2 d3. GraphStore_AddRelation subject predicate object metadata d = (None, d2) \<and>
                     GraphStore_AddRelation subject predicate object metadata' d2 = (None, d3) \<and>
                     same_rows d2 d3 \<and>
                     length (filter (\<lambda>R. Relation_Subject R = subject \<and>
                                          Relation_Predicate R = predicate \<and>
                                          Relation_Object R = object) (all_relations d2)) = 1 \<and>
                     length (filter (\<lambda>R. Relation_Subject R = subject \<and>
                                          Relation_Predicate R = predicate \<and>
                                          Relation_Object R = object) (all_relations d3)) = 1))"
proof (intro conjI impI)
  show "\<exists>i d1. GraphStore_EnsureEntity name entityType d = (Inr i, d1) \<and>
                GraphStore_EnsureEntity name entityType' d1 =
                  (Inr i, d1\<lparr> entities_seq :=
                                next_rowid (entities_seq d1) (map Entity_ID (entities d1)) \<rparr>)"
  proof (cases "find (\<lambda>e. Entity_Name e = name) (entities d)")
    case (Some e)
    let ?d1 = "d\<lparr> entities_seq := next_rowid (entities_seq d) (map Entity_ID (entities d)) \<rparr>"
    have nf1: "faults ?d1 = []" using assms by simp
    have f1: "find (\<lambda>e. Entity_Name e = name) (entities ?d1) = Some e"
      using Some by simp
    show ?thesis
      using EnsureEntity_present [OF assms Some, of entityType]
        EnsureEntity_present [OF nf1 f1, of entityType']
      by blast
  next
    case None
    then have abs: "\<forall>e \<in> set (entities d). Entity_Name e \<noteq> name"
      by (simp add: find_None_iff)
    from EnsureEntity_absent [OF assms abs, of entityType] obtain e where
      run: "GraphStore_EnsureEntity name entityType d =
              (Inr (Entity_ID e), d\<lparr> entities := entities d @ [e], entities_seq := Entity_ID e \<rparr>)"
      and nm: "Entity_Name e = name"
      by blast
    let ?d1 = "d\<lparr> entities := entities d @ [e], entities_seq := Entity_ID e \<rparr>"
    have nf1: "faults ?d1 = []" using assms by simp
    have f1: "find (\<lambda>e. Entity_Name e = name) (entities ?d1) = Some e"
      using None nm by (simp add: find_snoc)
    show ?thesis
      using run EnsureEntity_present [OF nf1 f1, of entityType'] by blast
  qed
next
  assume gok: "graph_ok d"
  let ?Q = "\<lambda>R. Relation_Subject R = subject \<and> Relation_Predicate R = predicate \<and>
                 Relation_Object R = object"
  from AddRelation_effect [OF assms gok, of subject predicate object metadata] obtain es eo d2 where
    run: "GraphStore_AddRelation subject predicate object metadata d = (None, d2)"
    and nf: "faults d2 = []" and ok: "graph_ok d2"
    and fs: "find (\<lambda>e. Entity_Name e = subject) (entities d2) = Some es"
    and fo: "find (\<lambda>e. Entity_Name e = object) (entities d2) = Some eo"
    and ex: "\<exists>r \<in> set (relations d2). rel_key r = (Entity_ID es, predicate, Entity_ID eo)"
    by blast
  from ex obtain r0 where r0: "r0 \<in> set (relations d2)"
    "rel_key r0 = (Entity_ID es, predicate, Entity_ID eo)" by blast
  from AddRelation_again [OF nf fs fo ex, of metadata'] obtain d3 where
    again: "GraphStore_AddRelation subject predicate object metadata' d2 = (None, d3)"
    and same: "same_rows d2 d3"
    by blast
  have one: "length (filter ?Q (all_relations d2)) = 1"
    by (rule one_relation_for_triple [OF ok fs fo r0])
  have "relation_of d3 = relation_of d2"
    using same by (intro ext) (auto simp: relation_of_def same_rows_def split: option.splits)
  then have "all_relations d3 = all_relations d2"
    using same by (simp add: all_relations_def same_rows_def)
  then have one': "length (filter ?Q (all_relations d3)) = 1"
    using one by simp
  show "\<exists>d2 d3. GraphStore_AddRelation subject predicate object metadata d = (None, d2) \<and>
                 GraphStore_AddRelation subject predicate object metadata' d2 = (None, d3) \<and>
                 same_rows d2 d3 \<and>
                 length (filter ?Q (all_relations d2)) = 1 \<and>
                 length (filter ?Q (all_relations d3)) = 1"
    using run again same one one' by blast
qed

theorem C8_ensureEntity_addRelation_idempotent_witness:
  "(\<exists>d1 d2 d3. GraphStore_EnsureEntity ''A'' ''person'' empty_db = (Inr 1, d1) \<and>
               GraphStore_EnsureEntity ''A'' ''project'' d1 = (Inr 1, d2) \<and>
               entities d2 = entities d1 \<and> entities_seq d1 = 1 \<and> entities_seq d2 = 2 \<and>
               GraphStore_EnsureEntity ''B'' [] d2 = (Inr 3, d3)) \<and>
   (\<exists>d2 d3. GraphStore_AddRelation ''A'' ''knows'' ''B'' [] empty_db = (None, d2) \<and>
             GraphStore_AddRelation ''A'' ''knows'' ''B'' ''again'' d2 = (None, d3) \<and>
             same_rows d2 d3 \<and> relations_seq d2 = 1 \<and> relations_seq d3 = 2 \<and>
             length (filter (\<lambda>R. Relation_Subject R = ''A'' \<and> Relation_Predicate R = ''knows'' \<and>
                                  Relation_Object R = ''B'') (all_relations d3)) = 1)"
proof -
  have nf: "faults empty_db = []" by (simp add: empty_db_def)
  have ok: "graph_ok empty_db" by (simp add: empty_db_def graph_ok_def)
  note c = C8_ensureEntity_addRelation_idempotent [OF nf, where name = "''A''"
      and entityType = "''person''" and entityType' = "''project''" and subject = "''A''"
      and predicate = "''knows''" and object = "''B''" and metadata = "[]"
      and metadata' = "''again''"]
  let ?a = "\<lparr> Entity_ID = 1, Entity_Name = ''A'', Entity_EntityType = ''person'',
      Entity_CreatedAt = 0 \<rparr>"
  let ?d1 = "empty_db\<lparr> entities := [?a], entities_seq := 1 \<rparr>"
  have e1: "GraphStore_EnsureEntity ''A'' ''person'' empty_db = (Inr 1, ?d1)"
    by (simp add: GraphStore_EnsureEntity_def stmt_def Let_def next_rowid_def empty_db_def)
  have seq: "next_rowid (entities_seq ?d1) (map Entity_ID (entities ?d1)) = 2"
    by (simp add: next_rowid_def)
  let ?d2 = "?d1\<lparr> entities_seq := 2 \<rparr>"
  let ?d3 = "?d1\<lparr> entities := [?a, \<lparr> Entity_ID = 3, Entity_Name = ''B'', Entity_EntityType = [],
                                        Entity_CreatedAt = 0 \<rparr>], entities_seq := 3 \<rparr>"
  from c [THEN conjunct1] e1
  have e2: "GraphStore_EnsureEntity ''A'' ''project'' ?d1 = (Inr 1, ?d2)"
    using seq by auto
  have e3: "GraphStore_EnsureEntity ''B'' [] ?d2 = (Inr 3, ?d3)"
    by (simp add: GraphStore_EnsureEntity_def stmt_def Let_def next_rowid_def empty_db_def)
  have first: "\<exists>d1 d2 d3. GraphStore_EnsureEntity ''A'' ''person'' empty_db = (Inr 1, d1) \<and>
               GraphStore_EnsureEntity ''A'' ''project'' d1 = (Inr 1, d2) \<and>
               entities d2 = entities d1 \<and> entities_seq d1 = 1 \<and> entities_seq d2 = 2 \<and>
               GraphStore_EnsureEntity ''B'' [] d2 = (Inr 3, d3)"
    using e1 e2 e3
    by - (rule exI [of _ ?d1], rule exI [of _ ?d2], rule exI [of _ ?d3], simp)
  from c [THEN conjunct2] ok obtain d2 d3 where
    a1: "GraphStore_AddRelation ''A'' ''knows'' ''B'' [] empty_db = (None, d2)"
    and a2: "GraphStore_AddRelation ''A'' ''knows'' ''B'' ''again'' d2 = (None, d3)"
    and same: "same_rows d2 d3"
    and one: "length (filter (\<lambda>R. Relation_Subject R = ''A'' \<and> Relation_Predicate R = ''knows'' \<and>
                                  Relation_Object R = ''B'') (all_relations d3)) = 1"
    by blast
  let ?D2 = "empty_db\<lparr> entities := [\<lparr> Entity_ID = 1, Entity_Name = ''A'', Entity_EntityType = [],
                                        Entity_CreatedAt = 0 \<rparr>,
                                      \<lparr> Entity_ID = 2, Entity_Name = ''B'', Entity_EntityType = [],
                                        Entity_CreatedAt = 0 \<rparr>],
                        entities_seq := 2,
                        relations := [\<lparr> rel_id = 1, rel_subject_id = 1, rel_predicate = ''knows'',
                                        rel_object_id = 2, rel_metadata = [], rel_created_at = 0 \<rparr>],
                        relations_seq := 1 \<rparr>"
  have "GraphStore_AddRelation ''A'' ''knows'' ''B'' [] empty_db = (None, ?D2)"
    by (simp add: GraphStore_AddRelation_def GraphStore_EnsureEntity_def stmt_def Let_def
        next_rowid_def empty_db_def)
  with a1 have d2: "d2 = ?D2" by simp
  have "GraphStore_AddRelation ''A'' ''knows'' ''B'' ''again'' ?D2 =
      (None, ?D2\<lparr> entities_seq := 4, relations_seq := 2 \<rparr>)"
    by (simp add: GraphStore_AddRelation_def GraphStore_EnsureEntity_def stmt_def Let_def
        next_rowid_def empty_db_def)
  with a2 d2 have d3: "d3 = ?D2\<lparr> entities_seq := 4, relations_seq := 2 \<rparr>" by simp
  have s2: "relations_seq d2 = 1" by (simp add: d2)
  have s3: "relations_seq d3 = 2" by (simp add: d3)
  show ?thesis
    using first a1 a2 same one s2 s3 by blast
qed

lemma concat_map_if:
  "concat (map (\<lambda>x. if P x then g x else []) xs) = concat (map g (filter P xs))"
  by (induction xs) auto

lemma map_filter_concat:
  "List.map_filter g xs = concat (map (\<lambda>x. case g x of None \<Rightarrow> [] | Some y \<Rightarrow> [y]) xs)"
  by (induction xs) (auto simp: map_filter_simps split: option.splits)

lemma joined_all_relations:
  assumes "distinct (map Entity_ID (entities d))"
  shows "map scan_relation (joined d) = all_relations d"
proof -
  have row: "map scan_relation
        (concat (map (\<lambda>s. if Entity_ID s = rel_subject_id r
                           then concat (map (\<lambda>ob. if Entity_ID ob = rel_object_id r
                                                   then [(r, s, ob)] else []) (entities d))
                           else []) (entities d)))
      = (case relation_of d r of None \<Rightarrow> [] | Some R \<Rightarrow> [R])" for r
    unfolding concat_map_if filter_unique [OF assms] relation_of_def
    by (simp split: option.splits)
  show ?thesis
    unfolding joined_def all_relations_def map_filter_concat map_concat
    by (simp add: comp_def row)
qed

lemma filter_scan_names:
  "map scan_relation
     (filter (\<lambda>(r, s, ob). Entity_Name s = name \<or> Entity_Name ob = name) js) =
   filter (\<lambda>R. Relation_Subject R = name \<or> Relation_Object R = name) (map scan_relation js)"
  by (induction js) (auto simp: scan_relation_def)

lemma distinct_ids_all_relations:
  assumes "distinct (map rel_id (relations d))"
  shows "distinct (map Relation_ID (all_relations d))"
proof -
  have "map Relation_ID (List.map_filter (relation_of d) rs) =
        map rel_id (filter (\<lambda>r. relation_of d r \<noteq> None) rs)" for rs
    by (induction rs)
      (auto simp: map_filter_simps relation_of_def scan_relation_def split: option.splits)
  then show ?thesis
    using assms by (simp add: all_relations_def distinct_map_filter)
qed

text \<open>
  Claim C9. With an engine that does not fail, on tables that satisfy the constraints of
  the schema, \<open>queryEntity(name)\<close> returns, as a multiset, exactly the relations of the
  graph whose subject or object is the name; no relation id occurs twice in the result,
  so a relation whose subject and object are both the name is returned once.
\<close>

theorem C9_queryEntity_each_relation_once:
  assumes "faults d = []" and "graph_ok d"
  shows "\<exists>rels. GraphStore_QueryEntity name d = (Inr rels, d) \<and>
           mset rels = filter_mset (\<lambda>R. Relation_Subject R = name \<or> Relation_Object R = name)
                         (mset (all_relations d)) \<and>
           distinct (map Relation_ID rels) \<and>
           distinct (map Relation_ID (all_relations d))"
proof -
  let ?Q = "\<lambda>R. Relation_Subject R = name \<or> Relation_Object R = name"
  let ?js = "filter (\<lambda>(r, s, ob). Entity_Name s = name \<or> Entity_Name ob = name) (joined d)"
  define rels where "rels = map scan_relation (order_desc (\<lambda>j. rel_created_at (fst j)) ?js)"
  have ids: "distinct (map Entity_ID (entities d))" and rids: "distinct (map rel_id (relations d))"
    using assms(2) by (simp_all add: graph_ok_def)
  have run: "GraphStore_QueryEntity name d = (Inr rels, d)"
    using assms(1) by (simp add: GraphStore_QueryEntity_def stmt_no_faults rels_def)
  have "mset rels = mset (map scan_relation ?js)"
    by (simp add: rels_def order_desc_def)
  also have "map scan_relation ?js = filter ?Q (all_relations d)"
    by (simp add: filter_scan_names joined_all_relations [OF ids])
  finally have ms: "mset rels = filter_mset ?Q (mset (all_relations d))"
    by simp
  have dall: "distinct (map Relation_ID (all_relations d))"
    by (rule distinct_ids_all_relations [OF rids])
  then have dq: "distinct (map Relation_ID (filter ?Q (all_relations d)))"
    by (rule distinct_map_filter)
  have "mset (map Relation_ID rels) = image_mset Relation_ID (mset rels)"
    by simp
  also have "\<dots> = image_mset Relation_ID (mset (filter ?Q (all_relations d)))"
    by (simp add: ms)
  also have "\<dots> = mset (map Relation_ID (filter ?Q (all_relations d)))"
    by simp
  finally have "distinct (map Relation_ID rels)"
    using mset_eq_imp_distinct_iff dq by blast
  then show ?thesis
    by (intro exI [of _ rels] conjI run ms dall)
qed


theorem C9_queryEntity_each_relation_once_witness:
  "\<exists>rels. GraphStore_QueryEntity ''Moltbot'' graph_db = (Inr rels, graph_db) \<and>
      map Relation_ID rels = [2, 1] \<and>
      map Relation_Subject rels = [''Moltbot'', ''Stuart''] \<and>
      map Relation_Object rels = [''Moltbot'', ''Moltbot''] \<and>
      mset rels = filter_mset (\<lambda>R. Relation_Subject R = ''Moltbot'' \<or> Relation_Object R = ''Moltbot'')
                    (mset (all_relations graph_db)) \<and>
      distinct (map Relation_ID rels)"
proof -
  let ?stuart = "\<lparr> Entity_ID = 1, Entity_Name = ''Stuart'', Entity_EntityType = [],
      Entity_CreatedAt = 1 \<rparr>"
  let ?moltbot = "\<lparr> Entity_ID = 2, Entity_Name = ''Moltbot'', Entity_EntityType = [],
      Entity_CreatedAt = 1 \<rparr>"
  let ?r1 = "\<lparr> rel_id = 1, rel_subject_id = 1, rel_predicate = ''works_on'', rel_object_id = 2,
      rel_metadata = [], rel_created_at = 1 \<rparr>"
  let ?r2 = "\<lparr> rel_id = 2, rel_subject_id = 2, rel_predicate = ''depends_on'', rel_object_id = 2,
      rel_metadata = [], rel_created_at = 2 \<rparr>"
  have nf: "faults graph_db = []" by (simp add: graph_db_def empty_db_def)
  have ok: "graph_ok graph_db" by (simp add: graph_db_def graph_ok_def rel_key_def)
  have j: "joined graph_db = [(?r1, ?stuart, ?moltbot), (?r2, ?moltbot, ?moltbot)]"
    by (simp add: joined_def graph_db_def)
  have run: "GraphStore_QueryEntity ''Moltbot'' graph_db =
      (Inr [scan_relation (?r2, ?moltbot, ?moltbot), scan_relation (?r1, ?stuart, ?moltbot)],
       graph_db)"
    by (simp add: GraphStore_QueryEntity_def stmt_no_faults [OF nf] j order_desc_def)
  from C9_queryEntity_each_relation_once [OF nf ok, of "''Moltbot''"] run show ?thesis
    by (simp add: scan_relation_def)
qed


section \<open>Context Assembler: which failures reach the caller\<close>

lemma stmt_fault: "faults d = f # fs \<Longrightarrow> stmt d = (f, d\<lparr>faults := fs\<rparr>)"
  by (simp add: stmt_def)

lemma BlockStore_List_cases:
  "BlockStore_List t d =
     (case faults d of
        True # fs \<Rightarrow> (Inl (Errorf ''list blocks'' EngineFailure), d\<lparr>faults := fs\<rparr>)
      | _ \<Rightarrow> (Inr (sort_key Block_Label
                  (filter (\<lambda>b. t = [] \<or> Block_BlockType b = t) (memory_blocks d))),
              d\<lparr>faults := tl (faults d)\<rparr>))"
  by (auto simp: BlockStore_List_def stmt_def split: list.splits bool.splits)

lemma SummaryStore_List_cases:
  "SummaryStore_List lv n d =
     (case faults d of
        True # fs \<Rightarrow> (Inl (Errorf ''list summaries'' EngineFailure), d\<lparr>faults := fs\<rparr>)
      | _ \<Rightarrow> (Inr (take (nat (if n \<le> 0 then 20 else n))
                  (rev (sort_key Summary_CreatedAt (sort_key Summary_ID
                     (filter (\<lambda>s. Summary_Level s = lv) (conversation_summaries d)))))),
              d\<lparr>faults := tl (faults d)\<rparr>))"
  by (auto simp: SummaryStore_List_def stmt_def Let_def split: list.splits bool.splits)

lemma GraphStore_ListEntities_cases:
  "GraphStore_ListEntities t d =
     (case faults d of
        True # fs \<Rightarrow> (Inl (Errorf ''list entities'' EngineFailure), d\<lparr>faults := fs\<rparr>)
      | _ \<Rightarrow> (Inr (sort_key Entity_Name
                  (filter (\<lambda>e. t = [] \<or> Entity_EntityType e = t) (entities d))),
              d\<lparr>faults := tl (faults d)\<rparr>))"
  by (auto simp: GraphStore_ListEntities_def stmt_def split: list.splits bool.splits)

lemma QueryEntity_fault:
  "faults d = True # fs \<Longrightarrow>
   GraphStore_QueryEntity name d = (Inl (Errorf ''query entity'' EngineFailure), d\<lparr>faults := fs\<rparr>)"
  by (simp add: GraphStore_QueryEntity_def stmt_def)

text \<open>
  Claim C1, as the code has it. \<open>build()\<close> sends three list statements first: the core
  blocks, the level-0 summaries, the entities. When one of them fails, \<open>build()\<close> returns
  a failure that names the store (\<^verbatim>\<open>load core blocks\<close>, \<^verbatim>\<open>load summaries\<close>,
  \<^verbatim>\<open>load entities\<close>) and no payload; \<open>build()\<close> returns a payload exactly when none of
  these three fails. A failure of the relation query of one entity does not fail
  \<open>build()\<close>: the loop goes on with the next entity, nothing being added for the entity
  whose query failed.
\<close>

theorem C1_build_failures:
  "(faults d = True # fs \<longrightarrow>
      Build d = (Inl (Errorf ''load core blocks'' (Errorf ''list blocks'' EngineFailure)),
                 d\<lparr>faults := fs\<rparr>)) \<and>
   (faults d = False # True # fs \<longrightarrow>
      Build d = (Inl (Errorf ''load summaries'' (Errorf ''list summaries'' EngineFailure)),
                 d\<lparr>faults := fs\<rparr>)) \<and>
   (faults d = False # False # True # fs \<longrightarrow>
      Build d = (Inl (Errorf ''load entities'' (Errorf ''list entities'' EngineFailure)),
                 d\<lparr>faults := fs\<rparr>)) \<and>
   ((\<exists>p d'. Build d = (Inr p, d')) \<longleftrightarrow> True \<notin> set (take 3 (faults d))) \<and>
   (faults dq = True # fs \<longrightarrow>
      collect_relations (e # es) seen acc dq = collect_relations es seen acc (dq\<lparr>faults := fs\<rparr>))"
proof (intro conjI impI)
  assume "faults d = True # fs"
  then show "Build d = (Inl (Errorf ''load core blocks'' (Errorf ''list blocks'' EngineFailure)),
                 d\<lparr>faults := fs\<rparr>)"
    by (simp add: Build_def BlockStore_List_cases)
next
  assume "faults d = False # True # fs"
  then show "Build d = (Inl (Errorf ''load summaries'' (Errorf ''list summaries'' EngineFailure)),
                 d\<lparr>faults := fs\<rparr>)"
    by (simp add: Build_def BlockStore_List_cases SummaryStore_List_cases)
next
  assume "faults d = False # False # True # fs"
  then show "Build d = (Inl (Errorf ''load entities'' (Errorf ''list entities'' EngineFailure)),
                 d\<lparr>faults := fs\<rparr>)"
    by (simp add: Build_def BlockStore_List_cases SummaryStore_List_cases
        GraphStore_ListEntities_cases)
next
  show "(\<exists>p d'. Build d = (Inr p, d')) \<longleftrightarrow> True \<notin> set (take 3 (faults d))"
  proof (cases "faults d")
    case Nil
    then show ?thesis
      by (simp add: Build_def BlockStore_List_cases SummaryStore_List_cases
          GraphStore_ListEntities_cases split: prod.splits)
  next
    case (Cons f1 r1)
    note c1 = this
    show ?thesis
    proof (cases r1)
      case Nil
      then show ?thesis using c1
        by (cases f1)
          (simp_all add: Build_def BlockStore_List_cases SummaryStore_List_cases
            GraphStore_ListEntities_cases split: prod.splits)
    next
      case (Cons f2 r2)
      note c2 = this
      show ?thesis
      proof (cases r2)
        case Nil
        then show ?thesis using c1 c2
          by (cases f1; cases f2)
            (simp_all add: Build_def BlockStore_List_cases SummaryStore_List_cases
              GraphStore_ListEntities_cases split: prod.splits)
      next
        case (Cons f3 r3)
        then show ?thesis using c1 c2
          by (cases f1; cases f2; cases f3)
            (simp_all add: Build_def BlockStore_List_cases SummaryStore_List_cases
              GraphStore_ListEntities_cases split: prod.splits)
      qed
    qed
  qed
next
  assume "faults dq = True # fs"
  then show "collect_relations (e # es) seen acc dq =
      collect_relations es seen acc (dq\<lparr>faults := fs\<rparr>)"
    by (simp add: QueryEntity_fault)
qed


theorem C1_build_failures_witness:
  "Build (empty_db\<lparr>faults := [True]\<rparr>) =
     (Inl (Errorf ''load core blocks'' (Errorf ''list blocks'' EngineFailure)), empty_db) \<and>
   Build (empty_db\<lparr>faults := [False, True]\<rparr>) =
     (Inl (Errorf ''load summaries'' (Errorf ''list summaries'' EngineFailure)), empty_db) \<and>
   Build (empty_db\<lparr>faults := [False, False, True]\<rparr>) =
     (Inl (Errorf ''load entities'' (Errorf ''list entities'' EngineFailure)), empty_db) \<and>
   (\<exists>p d'. Build (graph_db\<lparr>faults := [False, False, False, True]\<rparr>) = (Inr p, d')) \<and>
   collect_relations (entities graph_db) (\<lambda>i. False) [] (graph_db\<lparr>faults := [True]\<rparr>) =
     collect_relations (tl (entities graph_db)) (\<lambda>i. False) [] graph_db"
proof -
  have e: "empty_db\<lparr>faults := []\<rparr> = empty_db" "graph_db\<lparr>faults := []\<rparr> = graph_db"
    by (simp_all add: empty_db_def graph_db_def)
  have ents: "entities graph_db = hd (entities graph_db) # tl (entities graph_db)"
    by (simp add: graph_db_def)
  note a = C1_build_failures [where d = "empty_db\<lparr>faults := [True]\<rparr>" and fs = "[]"]
  note b = C1_build_failures [where d = "empty_db\<lparr>faults := [False, True]\<rparr>" and fs = "[]"]
  note c = C1_build_failures [where d = "empty_db\<lparr>faults := [False, False, True]\<rparr>" and fs = "[]"]
  note d = C1_build_failures [where d = "graph_db\<lparr>faults := [False, False, False, True]\<rparr>"
      and dq = "graph_db\<lparr>faults := [True]\<rparr>" and fs = "[]"
      and e = "hd (entities graph_db)" and es = "tl (entities graph_db)"
      and seen = "\<lambda>i. False" and acc = "[]"]
  have 1: "Build (empty_db\<lparr>faults := [True]\<rparr>) =
     (Inl (Errorf ''load core blocks'' (Errorf ''list blocks'' EngineFailure)), empty_db)"
    using a by (simp add: e)
  have 2: "Build (empty_db\<lparr>faults := [False, True]\<rparr>) =
     (Inl (Errorf ''load summaries'' (Errorf ''list summaries'' EngineFailure)), empty_db)"
    using b by (simp add: e)
  have 3: "Build (empty_db\<lparr>faults := [False, False, True]\<rparr>) =
     (Inl (Errorf ''load entities'' (Errorf ''list entities'' EngineFailure)), empty_db)"
    using c by (simp add: e)
  have 4: "\<exists>p d'. Build (graph_db\<lparr>faults := [False, False, False, True]\<rparr>) = (Inr p, d')"
    using d by simp
  have 5: "collect_relations (entities graph_db) (\<lambda>i. False) [] (graph_db\<lparr>faults := [True]\<rparr>) =
     collect_relations (tl (entities graph_db)) (\<lambda>i. False) [] graph_db"
    using d ents by (simp add: e)
  show ?thesis using 1 2 3 4 5 by blast
qed


text \<open>
  Claim C1 as stated fails: on the graph of two entities, the fourth statement of
  \<open>build()\<close>, the relation query for the entity \<^verbatim>\<open>Moltbot\<close>, fails, and \<open>build()\<close> still
  returns a payload; the payload holds one of the two relations of the graph.
\<close>

theorem C1_partial_payload_counterexample:
  "fst (GraphStore_QueryEntity ''Moltbot'' (graph_db\<lparr>faults := [True]\<rparr>)) =
     Inl (Errorf ''query entity'' EngineFailure) \<and>
   fst (Build (graph_db\<lparr>faults := [False, False, False, True]\<rparr>)) =
     Inr \<lparr> CoreBlocks = [], Summaries = [],
           Graph = [\<lparr> Relation_ID = 1, Relation_Subject = ''Stuart'',
                      Relation_Predicate = ''works_on'', Relation_Object = ''Moltbot'',
                      Relation_Metadata = [], Relation_CreatedAt = 1 \<rparr>] \<rparr> \<and>
   map Relation_ID (all_relations graph_db) = [1, 2]"
proof -
  have q: "fst (GraphStore_QueryEntity ''Moltbot'' (graph_db\<lparr>faults := [True]\<rparr>)) =
     Inl (Errorf ''query entity'' EngineFailure)"
    by (simp add: QueryEntity_fault)
  have ents: "sort_key Entity_Name (entities graph_db) = rev (entities graph_db)"
    by (simp add: graph_db_def)
  have b: "fst (Build (graph_db\<lparr>faults := [False, False, False, True]\<rparr>)) =
     Inr \<lparr> CoreBlocks = [], Summaries = [],
           Graph = [\<lparr> Relation_ID = 1, Relation_Subject = ''Stuart'',
                      Relation_Predicate = ''works_on'', Relation_Object = ''Moltbot'',
                      Relation_Metadata = [], Relation_CreatedAt = 1 \<rparr>] \<rparr>"
    by (simp add: Build_def BlockStore_List_cases SummaryStore_List_cases
        GraphStore_ListEntities_cases ents)
      (simp add: graph_db_def empty_db_def GraphStore_QueryEntity_def stmt_def joined_def
        order_desc_def scan_relation_def)
  have a: "map Relation_ID (all_relations graph_db) = [1, 2]"
    by (simp add: all_relations_def relation_of_def graph_db_def map_filter_simps scan_relation_def)
  show ?thesis using q b a by simp
qed



section \<open>Extraction Pipeline: the order of the writes, and no rollback\<close>










lemma block_kept_trans:
  "block_kept ws1 b b' \<Longrightarrow> block_kept ws2 b' b'' \<Longrightarrow> block_kept (ws1 @ ws2) b b''"
  unfolding block_kept_def by auto

lemma kept_trans:
  assumes "kept ws1 d1 d2" and "kept ws2 d2 d3"
  shows "kept (ws1 @ ws2) d1 d3"
proof -
  have "\<exists>b'' \<in> set (memory_blocks d3). block_kept (ws1 @ ws2) b b''"
    if "b \<in> set (memory_blocks d1)" for b
  proof -
    from that assms(1) obtain b' where "b' \<in> set (memory_blocks d2)" "block_kept ws1 b b'"
      unfolding kept_def by blast
    moreover from this assms(2) obtain b'' where "b'' \<in> set (memory_blocks d3)"
      "block_kept ws2 b' b''"
      unfolding kept_def by blast
    ultimately show ?thesis using block_kept_trans by blast
  qed
  moreover have "set (archival d1) \<subseteq> set (archival d3)"
    "set (entities d1) \<subseteq> set (entities d3)" "set (relations d1) \<subseteq> set (relations d3)"
    "set (conversation_summaries d1) \<subseteq> set (conversation_summaries d3)"
    using assms unfolding kept_def by (meson order_trans)+
  ultimately show ?thesis unfolding kept_def by blast
qed


lemma kept_trans_Nil: "kept ws d1 d2 \<Longrightarrow> kept [] d2 d3 \<Longrightarrow> kept ws d1 d3"
  using kept_trans [of ws d1 d2 "[]" d3] by simp
































section \<open>Extraction Pipeline: embedding is best effort\<close>

lemma find_map_preserving:
  "(\<And>x. P (g x) = P x) \<Longrightarrow> find P (map g xs) = map_option g (find P xs)"
  by (induction xs) auto

lemma Add_ok:
  assumes "faults d = []"
  shows "\<exists>e. ArchivalStore_Add c tags emb d =
              (Inr e, d\<lparr> archival := archival d @ [e], archival_seq := Archival_ID e \<rparr>) \<and>
            Archival_Content e = c \<and> Archival_Tags e = comma_join tags \<and>
            Archival_Embedding e = emb"
proof -
  define i where "i = next_rowid (archival_seq d) (map Archival_ID (archival d))"
  define row where "row = \<lparr> Archival_ID = i, Archival_Content = c,
     Archival_Tags = Join tags '','', Archival_Embedding = emb, Archival_CreatedAt = now d \<rparr>"
  have no_id: "find (\<lambda>e. Archival_ID e = i) (archival d) = None"
    unfolding i_def by (rule find_next_rowid)
  have "ArchivalStore_Add c tags emb d =
      (Inr row, d\<lparr> archival := archival d @ [row], archival_seq := i \<rparr>)"
    using assms
    by (simp add: ArchivalStore_Add_def ArchivalStore_GetByID_def stmt_no_faults Let_def
        find_snoc no_id flip: i_def row_def)
  then show ?thesis
    by (intro exI [of _ row]) (simp add: row_def Join_comma_join)
qed

lemma store_facts_ok:
  assumes "faults d = []"
  shows "\<exists>rows d'. store_facts cfg fs d = (None, d') \<and> faults d' = [] \<and>
           archival d' = archival d @ rows \<and>
           map (\<lambda>e. (Archival_Content e, Archival_Tags e, Archival_Embedding e)) rows =
           map (\<lambda>f. (Fact_Content f, comma_join (Fact_Tags f), embed_fact cfg f)) fs"
  using assms
proof (induction fs arbitrary: d)
  case Nil
  then show ?case by simp
next
  case (Cons f fs)
  from Add_ok [OF Cons.prems, of "Fact_Content f" "Fact_Tags f" "embed_fact cfg f"]
  obtain e where
    add: "ArchivalStore_Add (Fact_Content f) (Fact_Tags f) (embed_fact cfg f) d =
            (Inr e, d\<lparr> archival := archival d @ [e], archival_seq := Archival_ID e \<rparr>)"
    and e: "Archival_Content e = Fact_Content f" "Archival_Tags e = comma_join (Fact_Tags f)"
      "Archival_Embedding e = embed_fact cfg f"
    by blast
  let ?d1 = "d\<lparr> archival := archival d @ [e], archival_seq := Archival_ID e \<rparr>"
  have nf1: "faults ?d1 = []" using Cons.prems by simp
  from Cons.IH [OF nf1] obtain rows d' where
    rest: "store_facts cfg fs ?d1 = (None, d')" "faults d' = []"
      "archival d' = archival ?d1 @ rows"
      "map (\<lambda>e. (Archival_Content e, Archival_Tags e, Archival_Embedding e)) rows =
       map (\<lambda>f. (Fact_Content f, comma_join (Fact_Tags f), embed_fact cfg f)) fs"
    by blast
  show ?case
    by (intro exI [of _ "e # rows"] exI [of _ d']) (simp add: add rest e)
qed

lemma Create_ok:
  assumes "faults d = []" and "find (\<lambda>b. Block_Label b = label) (memory_blocks d) = None"
  shows "\<exists>b d'. BlockStore_Create label t c d = (Inr b, d') \<and> faults d' = [] \<and>
           archival d' = archival d"
proof -
  define i where "i = next_rowid (memory_blocks_seq d) (map Block_ID (memory_blocks d))"
  have no_id: "find (\<lambda>b. Block_ID b = i) (memory_blocks d) = None"
    unfolding i_def by (rule find_next_rowid)
  have absent: "\<not> (\<exists>b \<in> set (memory_blocks d). Block_Label b = label)"
    using assms(2) by (simp add: find_None_iff)
  show ?thesis
    using assms(1)
    by (simp add: BlockStore_Create_def BlockStore_GetByID_def stmt_no_faults Let_def
        find_snoc no_id absent flip: i_def)
qed

lemma Update_ok:
  assumes "faults d = []" and "find (\<lambda>b. Block_Label b = label) (memory_blocks d) = Some b0"
  shows "\<exists>b d'. BlockStore_Update label c d = (Inr b, d') \<and> faults d' = [] \<and>
           archival d' = archival d"
proof -
  let ?g = "\<lambda>b. if Block_Label b = label
                then b\<lparr> Block_Content := c, Block_UpdatedAt := now d \<rparr> else b"
  have "find (\<lambda>b. Block_Label b = label) (map ?g (memory_blocks d)) =
        map_option ?g (find (\<lambda>b. Block_Label b = label) (memory_blocks d))"
    by (rule find_map_preserving) simp
  then have "find (\<lambda>b. Block_Label b = label) (map ?g (memory_blocks d)) = Some (?g b0)"
    using assms(2) by simp
  then show ?thesis
    using assms(1)
    by (simp add: BlockStore_Update_def BlockStore_GetByLabel_def stmt_no_faults)
qed

lemma apply_block_updates_ok:
  assumes "faults d = []"
  shows "\<exists>d'. apply_block_updates bus d = (None, d') \<and> faults d' = [] \<and>
           archival d' = archival d"
  using assms
proof (induction bus arbitrary: d)
  case Nil
  then show ?case by simp
next
  case (Cons bu bus)
  show ?case
  proof (cases "find (\<lambda>b. Block_Label b = Update_Label bu) (memory_blocks d)")
    case None
    then have get: "BlockStore_GetByLabel (Update_Label bu) d =
        (Inl (ErrorfQ ''get block'' (Update_Label bu) ErrNoRows), d)"
      using Cons.prems by (simp add: BlockStore_GetByLabel_def stmt_no_faults)
    from Create_ok [OF Cons.prems None, of "''core''" "Update_Content bu"] obtain b d1 where
      cr: "BlockStore_Create (Update_Label bu) ''core'' (Update_Content bu) d = (Inr b, d1)"
      and nf1: "faults d1 = []" and a1: "archival d1 = archival d"
      by blast
    from Cons.IH [OF nf1] obtain d' where
      "apply_block_updates bus d1 = (None, d')" "faults d' = []" "archival d' = archival d1"
      by blast
    then show ?thesis by (simp add: get cr a1)
  next
    case (Some b0)
    then have get: "BlockStore_GetByLabel (Update_Label bu) d = (Inr b0, d)"
      using Cons.prems by (simp add: BlockStore_GetByLabel_def stmt_no_faults)
    from Update_ok [OF Cons.prems Some, of "Update_Content bu"] obtain b d1 where
      up: "BlockStore_Update (Update_Label bu) (Update_Content bu) d = (Inr b, d1)"
      and nf1: "faults d1 = []" and a1: "archival d1 = archival d"
      by blast
    from Cons.IH [OF nf1] obtain d' where
      "apply_block_updates bus d1 = (None, d')" "faults d' = []" "archival d' = archival d1"
      by blast
    then show ?thesis by (simp add: get up a1)
  qed
qed

lemma EnsureEntity_ok:
  assumes "faults d = []"
  shows "\<exists>i d'. GraphStore_EnsureEntity name t d = (Inr i, d') \<and> faults d' = [] \<and>
           archival d' = archival d"
proof (cases "find (\<lambda>e. Entity_Name e = name) (entities d)")
  case None
  then have "\<forall>e \<in> set (entities d). Entity_Name e \<noteq> name"
    by (simp add: find_None_iff)
  from EnsureEntity_absent [OF assms this, of t] show ?thesis
    using assms by auto
next
  case (Some e)
  from EnsureEntity_present [OF assms Some, of t] show ?thesis
    using assms by auto
qed

lemma AddRelation_ok:
  assumes "faults d = []"
  shows "\<exists>d'. GraphStore_AddRelation s p ob m d = (None, d') \<and> faults d' = [] \<and>
           archival d' = archival d"
proof -
  from EnsureEntity_ok [OF assms, of s "[]"] obtain i1 d1 where
    e1: "GraphStore_EnsureEntity s [] d = (Inr i1, d1)" and nf1: "faults d1 = []"
    and a1: "archival d1 = archival d" by blast
  from EnsureEntity_ok [OF nf1, of ob "[]"] obtain i2 d2 where
    e2: "GraphStore_EnsureEntity ob [] d1 = (Inr i2, d2)" and nf2: "faults d2 = []"
    and a2: "archival d2 = archival d1" by blast
  show ?thesis
    by (simp add: GraphStore_AddRelation_def e1 e2 stmt_no_faults [OF nf2] Let_def nf2 a1 a2)
qed

lemma store_triplets_ok:
  assumes "faults d = []"
  shows "\<exists>d'. store_triplets ts d = (None, d') \<and> faults d' = [] \<and> archival d' = archival d"
  using assms
proof (induction ts arbitrary: d)
  case Nil
  then show ?case by simp
next
  case (Cons t ts)
  from AddRelation_ok [OF Cons.prems, of "Triplet_Subject t" "Triplet_Predicate t" "Triplet_Object t" "[]"]
  obtain d1 where
    ar: "GraphStore_AddRelation (Triplet_Subject t) (Triplet_Predicate t) (Triplet_Object t) [] d = (None, d1)"
    and nf1: "faults d1 = []" and a1: "archival d1 = archival d"
    by blast
  from Cons.IH [OF nf1] obtain d' where
    "store_triplets ts d1 = (None, d')" "faults d' = []" "archival d' = archival d1"
    by blast
  then show ?case by (simp add: ar a1)
qed

lemma store_summary_ok:
  assumes "faults d = []"
  shows "\<exists>d'. store_summary s d = (None, d') \<and> faults d' = [] \<and> archival d' = archival d"
proof -
  define i where "i = next_rowid (conversation_summaries_seq d)
      (map Summary_ID (conversation_summaries d))"
  have no_id: "find (\<lambda>s. Summary_ID s = i) (conversation_summaries d) = None"
    unfolding i_def by (rule find_next_rowid)
  show ?thesis
    using assms
    by (simp add: store_summary_def SummaryStore_Add_def SummaryStore_GetByID_def
        stmt_no_faults Let_def find_snoc no_id flip: i_def)
qed

lemma Run_apply_ok:
  assumes "faults d = []"
  shows "\<exists>rows d'. Run_apply cfg result d = (Inr result, d') \<and>
           archival d' = archival d @ rows \<and>
           map (\<lambda>e. (Archival_Content e, Archival_Tags e, Archival_Embedding e)) rows =
           map (\<lambda>f. (Fact_Content f, comma_join (Fact_Tags f), embed_fact cfg f)) (Facts result)"
proof -
  from apply_block_updates_ok [OF assms, of "BlockUpdates result"] obtain d1 where
    1: "apply_block_updates (BlockUpdates result) d = (None, d1)" "faults d1 = []"
       "archival d1 = archival d" by blast
  from store_facts_ok [OF 1(2), of cfg "Facts result"] obtain rows d2 where
    2: "store_facts cfg (Facts result) d1 = (None, d2)" "faults d2 = []"
       "archival d2 = archival d1 @ rows"
       "map (\<lambda>e. (Archival_Content e, Archival_Tags e, Archival_Embedding e)) rows =
        map (\<lambda>f. (Fact_Content f, comma_join (Fact_Tags f), embed_fact cfg f)) (Facts result)"
    by blast
  from store_triplets_ok [OF 2(2), of "Triplets result"] obtain d3 where
    3: "store_triplets (Triplets result) d2 = (None, d3)" "faults d3 = []"
       "archival d3 = archival d2" by blast
  from store_summary_ok [OF 3(2), of "Result_Summary result"] obtain d4 where
    4: "store_summary (Result_Summary result) d3 = (None, d4)" "faults d4 = []"
       "archival d4 = archival d3" by blast
  show ?thesis
    by (intro exI [of _ rows] exI [of _ d4]) (simp add: Run_apply_def 1 2 3 4)
qed

lemma embed_fact_failing:
  "EmbedProv cfg = Some prov \<Longrightarrow> prov (Fact_Content f) = Inl err \<Longrightarrow> embed_fact cfg f = None"
  by (simp add: embed_fact_def)

lemma store_facts_without_provider:
  assumes "\<forall>f \<in> set fs. embed_fact cfg f = None"
  shows "store_facts cfg fs d = store_facts (cfg\<lparr>EmbedProv := None\<rparr>) fs d"
  using assms
proof (induction fs arbitrary: d)
  case Nil
  then show ?case by simp
next
  case (Cons f fs)
  have "embed_fact (cfg\<lparr>EmbedProv := None\<rparr>) f = None"
    by (simp add: embed_fact_def)
  then show ?case
    using Cons by (simp split: prod.splits sum.splits)
qed

text \<open>
  Claim C4. With an embedding provider configured: when the engine does not fail and the
  provider's \<open>Embed\<close> fails on the content of an extracted fact, the pipeline succeeds and
  has appended to the archival table a row with the content and the joined tags of the
  fact and no embedding. And under any behaviour of the engine, when \<open>Embed\<close> fails on
  every fact, the pipeline returns and leaves exactly what it does with no provider
  configured: an embedding failure is never a failure of the pipeline.
\<close>

theorem C4_embedding_failure_swallowed:
  assumes "EmbedProv cfg = Some prov"
  shows "(faults d = [] \<and> f \<in> set (Facts result) \<and> prov (Fact_Content f) = Inl err \<longrightarrow>
            (\<exists>d' before e after.
               Run_apply cfg result d = (Inr result, d') \<and>
               archival d' = archival d @ before @ e # after \<and>
               Archival_Content e = Fact_Content f \<and>
               Archival_Tags e = comma_join (Fact_Tags f) \<and>
               Archival_Embedding e = None)) \<and>
         ((\<forall>f \<in> set (Facts result). \<exists>err. prov (Fact_Content f) = Inl err) \<longrightarrow>
            Run_apply cfg result d = Run_apply (cfg\<lparr>EmbedProv := None\<rparr>) result d)"
proof (intro conjI impI)
  assume h: "faults d = [] \<and> f \<in> set (Facts result) \<and> prov (Fact_Content f) = Inl err"
  from Run_apply_ok [of d cfg result] h obtain rows d' where
    run: "Run_apply cfg result d = (Inr result, d')"
    and arch: "archival d' = archival d @ rows"
    and rows: "map (\<lambda>e. (Archival_Content e, Archival_Tags e, Archival_Embedding e)) rows =
           map (\<lambda>f. (Fact_Content f, comma_join (Fact_Tags f), embed_fact cfg f)) (Facts result)"
    by blast
  from h obtain fs1 fs2 where split: "Facts result = fs1 @ f # fs2"
    by (meson split_list)
  from rows [unfolded split] obtain before e after where
    r: "rows = before @ e # after"
    and e: "(Archival_Content e, Archival_Tags e, Archival_Embedding e) =
            (Fact_Content f, comma_join (Fact_Tags f), embed_fact cfg f)"
    by (auto simp: map_eq_append_conv map_eq_Cons_conv)
  have "embed_fact cfg f = None"
    using embed_fact_failing [OF assms] h by blast
  then show "\<exists>d' before e after.
               Run_apply cfg result d = (Inr result, d') \<and>
               archival d' = archival d @ before @ e # after \<and>
               Archival_Content e = Fact_Content f \<and>
               Archival_Tags e = comma_join (Fact_Tags f) \<and>
               Archival_Embedding e = None"
    using run arch r e by auto
next
  assume "\<forall>f \<in> set (Facts result). \<exists>err. prov (Fact_Content f) = Inl err"
  then have "\<forall>f \<in> set (Facts result). embed_fact cfg f = None"
    using embed_fact_failing [OF assms] by blast
  then have eq: "store_facts cfg (Facts result) d1 =
      store_facts (cfg\<lparr>EmbedProv := None\<rparr>) (Facts result) d1" for d1
    by (rule store_facts_without_provider)
  show "Run_apply cfg result d = Run_apply (cfg\<lparr>EmbedProv := None\<rparr>) result d"
    by (simp add: Run_apply_def eq split: prod.splits option.splits)
qed


theorem C4_embedding_failure_swallowed_witness:
  "(\<exists>d' before e after.
      Run_apply (example_config\<lparr>EmbedProv := Some failing_provider\<rparr>) example_result empty_db =
        (Inr example_result, d') \<and>
      archival d' = before @ e # after \<and>
      Archival_Content e = ''Y'' \<and> Archival_Tags e = ''t'' \<and> Archival_Embedding e = None) \<and>
   Run_apply (example_config\<lparr>EmbedProv := Some failing_provider\<rparr>) example_result
       (empty_db\<lparr>faults := [False, False, False, False, True]\<rparr>) =
     Run_apply example_config example_result
       (empty_db\<lparr>faults := [False, False, False, False, True]\<rparr>)"
proof -
  let ?cfg = "example_config\<lparr>EmbedProv := Some failing_provider\<rparr>"
  let ?f = "\<lparr> Fact_Content = ''Y'', Fact_Tags = [''t''] \<rparr>"
  have p: "EmbedProv ?cfg = Some failing_provider" by simp
  have n: "?cfg\<lparr>EmbedProv := None\<rparr> = example_config" by (simp add: example_config_def)
  note a = C4_embedding_failure_swallowed [OF p, where d = empty_db and f = ?f and result = example_result
      and err = EmbedFailure]
  note b = C4_embedding_failure_swallowed [OF p, where d = "empty_db\<lparr>faults := [False, False, False, False, True]\<rparr>"
      and result = example_result]
  have h: "faults empty_db = [] \<and> ?f \<in> set (Facts example_result) \<and>
      failing_provider (Fact_Content ?f) = Inl EmbedFailure"
    by (simp add: example_result_def failing_provider_def empty_db_def)
  have "\<exists>d' before e after.
      Run_apply ?cfg example_result empty_db = (Inr example_result, d') \<and>
      archival d' = archival empty_db @ before @ e # after \<and>
      Archival_Content e = Fact_Content ?f \<and> Archival_Tags e = comma_join (Fact_Tags ?f) \<and>
      Archival_Embedding e = None"
    using a [THEN conjunct1] h by (rule mp)
  then have 1: "\<exists>d' before e after.
      Run_apply ?cfg example_result empty_db = (Inr example_result, d') \<and>
      archival d' = before @ e # after \<and>
      Archival_Content e = ''Y'' \<and> Archival_Tags e = ''t'' \<and> Archival_Embedding e = None"
    by (simp add: empty_db_def)
  have all: "\<forall>f \<in> set (Facts example_result). \<exists>err. failing_provider (Fact_Content f) = Inl err"
    by (simp add: failing_provider_def)
  have 2: "Run_apply ?cfg example_result (empty_db\<lparr>faults := [False, False, False, False, True]\<rparr>) =
     Run_apply example_config example_result
       (empty_db\<lparr>faults := [False, False, False, False, True]\<rparr>)"
    using b [THEN conjunct2] all unfolding n by (rule mp)
  show ?thesis using 1 2 by blast
qed


section \<open>Extraction Pipeline: code fences\<close>

lemma leading_space_backtick: "leading_space (CHR ''`'' # s) = None"
  by (simp add: leading_space_def space_runes_def)

lemma suffix_snoc_last: "suffix e (s @ [c]) \<Longrightarrow> e \<noteq> [] \<Longrightarrow> last e = c"
  by (metis last_appendR last_snoc suffix_def)

lemma space_runes_last_backtick: "e \<in> set space_runes \<Longrightarrow> e \<noteq> [] \<and> last e \<noteq> CHR ''`''"
  by (auto simp: space_runes_def)

lemma trailing_space_backtick: "trailing_space (s @ [CHR ''`'']) = None"
proof -
  have "\<not> suffix e (s @ [CHR ''`''])" if "e \<in> set space_runes" for e
    using that suffix_snoc_last [of e s "CHR ''`''"] space_runes_last_backtick [of e] by blast
  then show ?thesis by (auto simp: trailing_space_def find_None_iff)
qed

lemma TrimLeft_backtick: "TrimLeft_space (CHR ''`'' # s) = CHR ''`'' # s"
  by (subst TrimLeft_space.simps) (simp add: leading_space_backtick)

lemma TrimRight_backtick: "TrimRight_space (s @ [CHR ''`'']) = s @ [CHR ''`'']"
  by (subst TrimRight_space.simps) (simp add: trailing_space_backtick)

lemma TrimSpace_fenced: "TrimSpace (CHR ''`'' # s @ [CHR ''`'']) = CHR ''`'' # s @ [CHR ''`'']"
  using TrimRight_backtick [of "CHR ''`'' # s"] by (simp add: TrimSpace_def TrimLeft_backtick)

lemma Index_newline:
  "CHR 0x0A \<notin> set p \<Longrightarrow> Index (p @ CHR 0x0A # rest) [CHR 0x0A] = int (length p)"
proof (induction p)
  case Nil
  then show ?case by (subst Index.simps) simp
next
  case (Cons c p)
  then show ?case by (subst Index.simps) simp
qed

lemma suffix_single_snoc: "suffix [a] (s @ [b]) \<longleftrightarrow> a = b"
  by (metis suffix_snoc_last last.simps list.distinct(1) suffixI append.right_neutral suffix_def
      append_Cons append_Nil)

lemma trailing_space_newline: "trailing_space (s @ [CHR 0x0A]) = Some [CHR 0x0A]"
  by (simp add: trailing_space_def space_runes_def suffix_single_snoc)

lemma TrimRight_newline: "TrimRight_space (s @ [CHR 0x0A]) = TrimRight_space s"
  by (subst TrimRight_space.simps) (simp add: trailing_space_newline)

lemma trailing_space_Nil: "trailing_space [] = None"
  by (simp add: trailing_space_def space_runes_def)

lemma TrimRight_Nil: "TrimRight_space [] = []"
  by (subst TrimRight_space.simps) (simp add: trailing_space_Nil)

lemma space_runes_last_newline: "e \<in> set space_runes \<Longrightarrow> last e = CHR 0x0A \<Longrightarrow> e = [CHR 0x0A]"
  by (auto simp: space_runes_def)

lemma leading_space_newline_only: "leading_space [CHR 0x0A] = Some [CHR 0x0A]"
  by (simp add: leading_space_def space_runes_def)

lemma leading_space_snoc:
  assumes "s \<noteq> []"
  shows "leading_space (s @ [CHR 0x0A]) = leading_space s"
proof -
  have "prefix e (s @ [CHR 0x0A]) \<longleftrightarrow> prefix e s" if "e \<in> set space_runes" for e
  proof
    assume p: "prefix e (s @ [CHR 0x0A])"
    show "prefix e s"
    proof (rule ccontr)
      assume "\<not> prefix e s"
      then have whole: "e = s @ [CHR 0x0A]" using p by simp
      then have "last e = CHR 0x0A" by simp
      then have "e = [CHR 0x0A]" using that space_runes_last_newline by blast
      then show False using whole assms by simp
    qed
  next
    assume "prefix e s"
    then show "prefix e (s @ [CHR 0x0A])" by simp
  qed
  then show ?thesis
    unfolding leading_space_def by (intro find_cong) simp_all
qed

lemma TrimLeft_snoc_newline:
  "TrimLeft_space (s @ [CHR 0x0A]) =
     (if TrimLeft_space s = [] then [] else TrimLeft_space s @ [CHR 0x0A])"
proof (induction s rule: TrimLeft_space.induct)
  case (1 s)
  show ?case
  proof (cases "s = []")
    case True
    have "TrimLeft_space [CHR 0x0A] = TrimLeft_space []"
      by (subst TrimLeft_space.simps) (simp add: leading_space_newline_only)
    moreover have "TrimLeft_space [] = []"
      by (subst TrimLeft_space.simps) (simp add: leading_space_def space_runes_def)
    ultimately show ?thesis using True by simp
  next
    case False
    note ls = leading_space_snoc [OF False]
    show ?thesis
    proof (cases "leading_space s")
      case None
      have a: "TrimLeft_space s = s"
        by (subst TrimLeft_space.simps) (simp add: None)
      have b: "TrimLeft_space (s @ [CHR 0x0A]) = s @ [CHR 0x0A]"
        by (subst TrimLeft_space.simps) (simp add: ls None)
      show ?thesis using a b False by simp
    next
      case (Some e)
      then have "prefix e s" by (auto simp: leading_space_def find_Some_iff)
      then have le: "length e \<le> length s" by (rule prefix_length_le)
      have a: "TrimLeft_space s = TrimLeft_space (drop (length e) s)"
        by (subst TrimLeft_space.simps) (simp add: Some)
      have b: "TrimLeft_space (s @ [CHR 0x0A]) = TrimLeft_space (drop (length e) s @ [CHR 0x0A])"
        by (subst TrimLeft_space.simps) (simp add: ls Some le)
      show ?thesis using "1.IH" [OF Some] a b by simp
    qed
  qed
qed

lemma TrimSpace_snoc_newline: "TrimSpace (s @ [CHR 0x0A]) = TrimSpace s"
  by (simp add: TrimSpace_def TrimLeft_snoc_newline TrimRight_newline TrimRight_Nil)

lemma stripCodeFences_fenced:
  assumes "CHR 0x0A \<notin> set tag"
  shows "stripCodeFences (''```'' @ tag @ [CHR 0x0A] @ body @ [CHR 0x0A] @ ''```'') = TrimSpace body"
proof -
  define p where "p = ''```'' @ tag"
  define rest where "rest = body @ [CHR 0x0A] @ ''```''"
  have shape: "''```'' @ tag @ [CHR 0x0A] @ body @ [CHR 0x0A] @ ''```'' = p @ CHR 0x0A # rest"
    by (simp add: p_def rest_def)
  have s1: "TrimSpace (p @ CHR 0x0A # rest) = p @ CHR 0x0A # rest"
    using TrimSpace_fenced [of "''``'' @ tag @ [CHR 0x0A] @ body @ [CHR 0x0A] @ ''``''"]
    by (simp add: p_def rest_def)
  have pre: "HasPrefix (p @ CHR 0x0A # rest) ''```''"
    by (simp add: HasPrefix_def p_def)
  have idx: "Index (p @ CHR 0x0A # rest) [CHR 0x0A] = int (length p)"
    by (rule Index_newline) (simp add: p_def assms)
  have s2: "drop (nat (int (length p) + 1)) (p @ CHR 0x0A # rest) = rest"
    by (simp add: nat_add_distrib)
  have suf: "HasSuffix rest ''```''"
    by (simp add: HasSuffix_def suffix_def rest_def)
  have s3: "take (length rest - 3) rest = body @ [CHR 0x0A]"
    by (simp add: rest_def)
  have found: "int (length p) \<noteq> - 1"
    by simp
  have "stripCodeFences (p @ CHR 0x0A # rest) = TrimSpace (body @ [CHR 0x0A])"
    unfolding stripCodeFences_def Let_def s1 idx
    by (simp only: pre found s2 suf s3 if_True not_False_eq_True)
  then show ?thesis
    unfolding shape by (simp add: TrimSpace_snoc_newline)
qed

text \<open>
  Claim C3, as the code has it. For a language tag that holds no line feed, the
  fence-stripping step maps the text made of three backticks, the tag, a line feed, the
  body, a line feed and three backticks to the trimmed body. The backend that runs the
  \<^verbatim>\<open>claude -p\<close> subprocess applies the step: when the trimmed standard output has that
  form, the text that is decoded as the extraction schema is the trimmed body.
\<close>

theorem C3_strip_code_fences:
  assumes "CHR 0x0A \<notin> set tag"
  shows "stripCodeFences (''```'' @ tag @ [CHR 0x0A] @ body @ [CHR 0x0A] @ ''```'') = TrimSpace body \<and>
         (claude_p w input = Inr stdout \<and>
          TrimSpace stdout = ''```'' @ tag @ [CHR 0x0A] @ body @ [CHR 0x0A] @ ''```'' \<longrightarrow>
            extractWithClaude w input = decode_result w (TrimSpace body))"
proof (intro conjI impI)
  show "stripCodeFences (''```'' @ tag @ [CHR 0x0A] @ body @ [CHR 0x0A] @ ''```'') = TrimSpace body"
    by (rule stripCodeFences_fenced [OF assms])
next
  assume h: "claude_p w input = Inr stdout \<and>
          TrimSpace stdout = ''```'' @ tag @ [CHR 0x0A] @ body @ [CHR 0x0A] @ ''```''"
  then have ne: "TrimSpace stdout \<noteq> []" by simp
  show "extractWithClaude w input = decode_result w (TrimSpace body)"
    using h ne stripCodeFences_fenced [OF assms, of body]
    by (simp add: extractWithClaude_def Let_def)
qed


lemma TrimSpace_braces: "TrimSpace ''{}'' = ''{}''"
proof -
  have l: "leading_space ''{}'' = None"
    by (simp add: leading_space_def space_runes_def)
  have t: "trailing_space ''{}'' = None"
    by (simp add: trailing_space_def space_runes_def suffix_Cons)
  have "TrimLeft_space ''{}'' = ''{}''"
    by (subst TrimLeft_space.simps) (simp add: l)
  moreover have "TrimRight_space ''{}'' = ''{}''"
    by (subst TrimRight_space.simps) (simp add: t)
  ultimately show ?thesis by (simp add: TrimSpace_def)
qed

lemma TrimSpace_fenced_json: "TrimSpace (fenced_json @ [CHR 0x0A]) = fenced_json"
  unfolding TrimSpace_snoc_newline
  using TrimSpace_fenced [of "''``json'' @ [CHR 0x0A] @ ''{}'' @ [CHR 0x0A] @ ''``''"]
  by (simp add: fenced_json_def)

theorem C3_strip_code_fences_witness:
  "stripCodeFences fenced_json = ''{}'' \<and> extractWithClaude fence_world ''hi'' = Inr empty_result"
proof -
  have nl: "CHR 0x0A \<notin> set ''json''" by simp
  have out: "claude_p fence_world ''hi'' = Inr (fenced_json @ [CHR 0x0A]) \<and>
      TrimSpace (fenced_json @ [CHR 0x0A]) = ''```'' @ ''json'' @ [CHR 0x0A] @ ''{}'' @ [CHR 0x0A] @ ''```''"
    using TrimSpace_fenced_json by (simp add: fence_world_def fenced_json_def)
  note c = C3_strip_code_fences [OF nl, where body = "''{}''" and w = fence_world and input = "''hi''"
      and stdout = "fenced_json @ [CHR 0x0A]"]
  have 1: "stripCodeFences fenced_json = ''{}''"
    using c [THEN conjunct1] by (simp add: fenced_json_def TrimSpace_braces)
  have "extractWithClaude fence_world ''hi'' = decode_result fence_world (TrimSpace ''{}'')"
    using c [THEN conjunct2] out by (rule mp)
  then have 2: "extractWithClaude fence_world ''hi'' = Inr empty_result"
    by (simp add: TrimSpace_braces decode_result_def fence_world_def decode_empty_object_def)
  show ?thesis using 1 2 by simp
qed


lemma TrimSpace_unchanged:
  assumes "leading_space s = None" and "trailing_space s = None"
  shows "TrimSpace s = s"
proof -
  have a: "TrimLeft_space s = s"
    by (subst TrimLeft_space.simps) (simp add: assms)
  have b: "TrimRight_space s = s"
    by (subst TrimRight_space.simps) (simp add: assms)
  show ?thesis by (simp add: TrimSpace_def a b)
qed

lemma space_runes_last_tilde: "e \<in> set space_runes \<Longrightarrow> e \<noteq> [] \<and> last e \<noteq> CHR ''~''"
  by (auto simp: space_runes_def)

lemma trailing_space_tilde: "trailing_space (s @ [CHR ''~'']) = None"
proof -
  have "\<not> suffix e (s @ [CHR ''~''])" if "e \<in> set space_runes" for e
    using that suffix_snoc_last [of e s "CHR ''~''"] space_runes_last_tilde [of e] by blast
  then show ?thesis by (auto simp: trailing_space_def find_None_iff)
qed

lemma stripCodeFences_tilde: "stripCodeFences tilde_fenced_json = tilde_fenced_json"
proof -
  have l: "leading_space tilde_fenced_json = None"
    by (simp add: leading_space_def space_runes_def tilde_fenced_json_def)
  have t: "trailing_space tilde_fenced_json = None"
    using trailing_space_tilde [of "''~~~json'' @ [CHR 0x0A] @ ''{}'' @ [CHR 0x0A] @ ''~~''"]
    by (simp add: tilde_fenced_json_def)
  have ts: "TrimSpace tilde_fenced_json = tilde_fenced_json"
    by (rule TrimSpace_unchanged [OF l t])
  have np: "\<not> HasPrefix tilde_fenced_json ''```''"
    by (simp add: HasPrefix_def tilde_fenced_json_def)
  have ns: "\<not> HasSuffix tilde_fenced_json ''```''"
    by (simp add: HasSuffix_def tilde_fenced_json_def suffix_to_prefix)
  show ?thesis
    unfolding stripCodeFences_def Let_def ts
    by (simp only: np ns if_False ts)
qed

lemma stripCodeFences_long:
  "stripCodeFences long_fenced_json = ''{}'' @ [CHR 0x0A] @ ''`''"
proof -
  define p where "p = ''````json''"
  define rest where "rest = ''{}'' @ [CHR 0x0A] @ ''````''"
  have shape: "long_fenced_json = p @ CHR 0x0A # rest"
    by (simp add: p_def rest_def long_fenced_json_def)
  have s1: "TrimSpace (p @ CHR 0x0A # rest) = p @ CHR 0x0A # rest"
    using TrimSpace_fenced [of "''```json'' @ [CHR 0x0A] @ ''{}'' @ [CHR 0x0A] @ ''```''"]
    by (simp add: p_def rest_def)
  have pre: "HasPrefix (p @ CHR 0x0A # rest) ''```''"
    by (simp add: HasPrefix_def p_def)
  have idx: "Index (p @ CHR 0x0A # rest) [CHR 0x0A] = int (length p)"
    by (rule Index_newline) (simp add: p_def)
  have s2: "drop (nat (int (length p) + 1)) (p @ CHR 0x0A # rest) = rest"
    by (simp add: nat_add_distrib)
  have suf: "HasSuffix rest ''```''"
    by (simp add: HasSuffix_def rest_def suffix_to_prefix)
  have s3: "take (length rest - 3) rest = ''{}'' @ [CHR 0x0A] @ ''`''"
    by (simp add: rest_def)
  have found: "int (length p) \<noteq> - 1"
    by simp
  have l: "leading_space (''{}'' @ [CHR 0x0A] @ ''`'') = None"
    by (simp add: leading_space_def space_runes_def)
  have t: "trailing_space (''{}'' @ [CHR 0x0A] @ ''`'') = None"
    using trailing_space_backtick [of "''{}'' @ [CHR 0x0A]"] by simp
  have "stripCodeFences (p @ CHR 0x0A # rest) = TrimSpace (''{}'' @ [CHR 0x0A] @ ''`'')"
    unfolding stripCodeFences_def Let_def s1 idx
    by (simp only: pre found s2 suf s3 if_True not_False_eq_True)
  then show ?thesis
    unfolding shape by (simp only: TrimSpace_unchanged [OF l t])
qed

text \<open>
  Claim C3 as stated fails: it speaks of every response that is wrapped in a code fence
  and of every backend. The fence-stripping step removes a first line that starts with
  three backticks and three backticks at the end, and nothing else: a response of the
  \<^verbatim>\<open>claude -p\<close> subprocess that holds the empty JSON object inside a fence of tildes is
  decoded as it is, and inside a fence of four backticks it is decoded with a line feed
  and a backtick left behind the object; both runs fail with the decoding error. The
  backend of the local HTTP chat API, which asks the server for JSON output, decodes the
  text as it receives it, so the object inside a fence of three backticks fails there
  too. The decoder accepts the object itself.
\<close>

theorem C3_other_fences_counterexample:
  "stripCodeFences tilde_fenced_json = tilde_fenced_json \<and>
   Run (reply_world tilde_fenced_json) ''hi'' (Some example_config) empty_db =
     (Inl (Errorf ''extract''
        (Errorf ''decode extraction result'' (DecodeError tilde_fenced_json))), empty_db) \<and>
   stripCodeFences long_fenced_json = ''{}'' @ [CHR 0x0A] @ ''`'' \<and>
   Run (reply_world long_fenced_json) ''hi'' (Some example_config) empty_db =
     (Inl (Errorf ''extract''
        (Errorf ''decode extraction result'' (DecodeError (''{}'' @ [CHR 0x0A] @ ''`'')))),
      empty_db) \<and>
   Run (reply_world fenced_json) ''hi''
     (Some (example_config\<lparr> Config_Provider := ''ollama'' \<rparr>)) empty_db =
     (Inl (Errorf ''extract'' (Errorf ''decode extraction result'' (DecodeError fenced_json))),
      empty_db) \<and>
   Unmarshal (reply_world fenced_json) ''{}'' = Some empty_result"
proof -
  have lt: "leading_space tilde_fenced_json = None"
    by (simp add: leading_space_def space_runes_def tilde_fenced_json_def)
  have tt: "trailing_space tilde_fenced_json = None"
    using trailing_space_tilde [of "''~~~json'' @ [CHR 0x0A] @ ''{}'' @ [CHR 0x0A] @ ''~~''"]
    by (simp add: tilde_fenced_json_def)
  have t1: "TrimSpace tilde_fenced_json = tilde_fenced_json"
    by (rule TrimSpace_unchanged [OF lt tt])
  have t2: "TrimSpace long_fenced_json = long_fenced_json"
    using TrimSpace_fenced [of "''```json'' @ [CHR 0x0A] @ ''{}'' @ [CHR 0x0A] @ ''```''"]
    by (simp add: long_fenced_json_def)
  have ne: "tilde_fenced_json \<noteq> []" "long_fenced_json \<noteq> []"
    "tilde_fenced_json \<noteq> ''{}''" "fenced_json \<noteq> ''{}''"
    by (simp_all add: tilde_fenced_json_def long_fenced_json_def fenced_json_def)
  have c1: "extractWithClaude (reply_world tilde_fenced_json) ''hi'' =
      Inl (Errorf ''decode extraction result'' (DecodeError tilde_fenced_json))"
    using ne
    by (simp add: extractWithClaude_def Let_def reply_world_def t1 stripCodeFences_tilde
        decode_result_def decode_empty_object_def)
  have c2: "extractWithClaude (reply_world long_fenced_json) ''hi'' =
      Inl (Errorf ''decode extraction result'' (DecodeError (''{}'' @ [CHR 0x0A] @ ''`'')))"
    using ne
    by (simp add: extractWithClaude_def Let_def reply_world_def t2 stripCodeFences_long
        decode_result_def decode_empty_object_def)
  have c3: "extractWithOllama (reply_world fenced_json) ''hi'' cfg =
      Inl (Errorf ''decode extraction result'' (DecodeError fenced_json))" for cfg
    using ne
    by (simp add: extractWithOllama_def reply_world_def decode_result_def
        decode_empty_object_def)
  have 1: "Run (reply_world tilde_fenced_json) ''hi'' (Some example_config) empty_db =
     (Inl (Errorf ''extract''
        (Errorf ''decode extraction result'' (DecodeError tilde_fenced_json))), empty_db)"
    by (simp add: Run_def Run_extract_def wrap_extract_def c1 example_config_def)
  have 2: "Run (reply_world long_fenced_json) ''hi'' (Some example_config) empty_db =
     (Inl (Errorf ''extract''
        (Errorf ''decode extraction result'' (DecodeError (''{}'' @ [CHR 0x0A] @ ''`'')))),
      empty_db)"
    by (simp add: Run_def Run_extract_def wrap_extract_def c2 example_config_def)
  have 3: "Run (reply_world fenced_json) ''hi''
     (Some (example_config\<lparr> Config_Provider := ''ollama'' \<rparr>)) empty_db =
     (Inl (Errorf ''extract'' (Errorf ''decode extraction result'' (DecodeError fenced_json))),
      empty_db)"
    by (simp add: Run_def Run_extract_def wrap_extract_def c3)
  have 4: "Unmarshal (reply_world fenced_json) ''{}'' = Some empty_result"
    by (simp add: reply_world_def decode_empty_object_def)
  show ?thesis
    using stripCodeFences_tilde stripCodeFences_long 1 2 3 4 by simp
qed


end
